theory Spec2Isabelle
  imports Main "HOL-Library.Sublist"
begin

text \<open>
  A model of the website translator of src/server/index.js and of the second version of
  the same server in src/unnamed/part_000: the crawl of a site, the store of text fragments,
  the translation client, and the handlers that serve a page with the translations put in.
  What the server gets from outside is a parameter of the functions that use it: the outcome
  of an HTTP request, the \<open>URL\<close> constructor of Node, and the HTML parser of cheerio. A
  page is the tree that the parser builds.
\<close>

section \<open>JavaScript containers\<close>

text \<open>
  A JavaScript \<open>Set\<close> iterates in insertion order, so it is modelled as the list of its
  elements in that order, without repetition. \<open>add\<close> of an element already present changes
  nothing, \<open>delete\<close> removes the element, \<open>has\<close> is membership, \<open>size\<close> is the length
  and \<open>Array.from(s)[0]\<close> is the head.
\<close>

definition set_add :: "'a list \<Rightarrow> 'a \<Rightarrow> 'a list" where
  "set_add s x = (if x \<in> set s then s else s @ [x])"

definition set_delete :: "'a list \<Rightarrow> 'a \<Rightarrow> 'a list" where
  "set_delete s x = removeAll x s"

section \<open>JavaScript strings and values\<close>

text \<open>
  A string is the list of its code units; a \<open>char\<close> stands for a code unit below 256.
  \<open>s.startsWith(p)\<close> and \<open>s.includes(t)\<close> are the prefix and the contiguous-sublist tests.
\<close>

definition startsWith :: "string \<Rightarrow> string \<Rightarrow> bool" where
  "startsWith s p = prefix p s"

fun js_includes :: "string \<Rightarrow> string \<Rightarrow> bool" where
  "js_includes [] t = (t = [])"
| "js_includes (c # cs) t = (prefix t (c # cs) \<or> js_includes cs t)"

text \<open>
  \<open>s.replace(pattern, replacement)\<close> with a string pattern replaces the first occurrence
  only. The replacement is a template: ECMAScript's GetSubstitution turns \<open>$$\<close> into a
  single dollar sign, \<open>$&\<close> into the matched text, \<open>$`\<close> into the text before the match
  and \<open>$'\<close> into the text after it. A string pattern has no capture groups, so \<open>$1\<close> and
  the like stay as they are.
\<close>

fun split_at_first :: "string \<Rightarrow> string \<Rightarrow> (string \<times> string) option" where
  "split_at_first pat [] = (if pat = [] then Some ([], []) else None)"
| "split_at_first pat (c # cs) =
     (if prefix pat (c # cs) then Some ([], drop (length pat) (c # cs))
      else map_option (\<lambda>(preceding, following). (c # preceding, following)) (split_at_first pat cs))"

fun get_substitution :: "string \<Rightarrow> string \<Rightarrow> string \<Rightarrow> string \<Rightarrow> string" where
  "get_substitution matched preceding following (c # d # rest) =
     (if c = CHR ''$'' \<and> d = CHR ''$'' then CHR ''$'' # get_substitution matched preceding following rest
      else if c = CHR ''$'' \<and> d = CHR ''&'' then matched @ get_substitution matched preceding following rest
      else if c = CHR ''$'' \<and> d = CHR 0x60 then preceding @ get_substitution matched preceding following rest
      else if c = CHR ''$'' \<and> d = CHR 0x27 then following @ get_substitution matched preceding following rest
      else c # get_substitution matched preceding following (d # rest))"
| "get_substitution matched preceding following template = template"

definition js_replace :: "string \<Rightarrow> string \<Rightarrow> string \<Rightarrow> string" where
  "js_replace s pat replacement =
     (case split_at_first pat s of
        None \<Rightarrow> s
      | Some (preceding, following) \<Rightarrow> preceding @ get_substitution pat preceding following replacement @ following)"

text \<open>
  \<open>s.trim()\<close> removes white space and line terminators at both ends; of the code units
  below 256 these are tab, line feed, vertical tab, form feed, carriage return, space and
  the no-break space.
\<close>

definition js_space :: "char \<Rightarrow> bool" where
  "js_space c \<longleftrightarrow> c \<in> set [CHR 0x09, CHR 0x0A, CHR 0x0B, CHR 0x0C, CHR 0x0D, CHR 0x20, CHR 0xA0]"

definition trim :: "string \<Rightarrow> string" where
  "trim s = rev (dropWhile js_space (rev (dropWhile js_space s)))"

text \<open>
  A nullable string is a \<open>string option\<close>. \<open>a || b\<close> on strings yields \<open>b\<close> when \<open>a\<close> is
  null, undefined or empty; a value is truthy when it is a non-empty string.
\<close>

definition truthy :: "string option \<Rightarrow> bool" where
  "truthy v \<longleftrightarrow> (case v of None \<Rightarrow> False | Some s \<Rightarrow> s \<noteq> [])"

definition js_or :: "string option \<Rightarrow> string \<Rightarrow> string" where
  "js_or v d = (case v of None \<Rightarrow> d | Some s \<Rightarrow> if s = [] then d else s)"

text \<open>The outcome of a call that may throw.\<close>

datatype 'a js_result = Returns 'a | Throws string

section \<open>The parsed document\<close>

text \<open>
  What \<open>cheerio.load\<close> builds: text nodes (node type 3), comments, and elements with a
  lower-case tag name, attributes in source order and children. The body of a script or
  style element is a text node child of it. A document is the list of the root's children.
\<close>

datatype node =
    Text string
  | Comment string
  | Element string "(string \<times> string) list" "node list"

type_synonym attributes = "(string \<times> string) list"

text \<open>\<open>$el.attr(name)\<close> reads an attribute (undefined when absent); \<open>$el.attr(name, v)\<close>
  overwrites it in place or appends it.\<close>

definition attr :: "attributes \<Rightarrow> string \<Rightarrow> string option" where
  "attr as name = map_of as name"

fun set_attr :: "attributes \<Rightarrow> string \<Rightarrow> string \<Rightarrow> attributes" where
  "set_attr [] name v = [(name, v)]"
| "set_attr ((k, w) # as) name v =
     (if k = name then (k, v) # as else (k, w) # set_attr as name v)"

text \<open>
  The text of a node. \<open>getText\<close> is what the \<open>:contains\<close> selector tests: every text node
  below the element, a \<open>br\<close> element counting as a line feed. \<open>cheerio_text\<close> is the
  \<open>.text()\<close> method of the current release of the library (src/ pins no version): the
  text content, which is every text node below the element, the bodies of script and
  style elements included.
\<close>

fun getText :: "node \<Rightarrow> string" where
  "getText (Text d) = d"
| "getText (Comment c) = []"
| "getText (Element n as cs) = (if n = ''br'' then [CHR 0x0A] else concat (map getText cs))"

fun cheerio_text :: "node \<Rightarrow> string" where
  "cheerio_text (Text d) = d"
| "cheerio_text (Comment c) = []"
| "cheerio_text (Element n as cs) = concat (map cheerio_text cs)"

text \<open>
  A selection is the list of the positions of the selected elements in document order:
  a position is the list of child indices that leads from the root to the element.
  \<open>select_from\<close> walks a list of siblings whose first member has index \<open>i\<close>.
\<close>

fun select_from :: "(string \<Rightarrow> attributes \<Rightarrow> node list \<Rightarrow> bool) \<Rightarrow> nat \<Rightarrow> node list \<Rightarrow> nat list list" where
  "select_from P i [] = []"
| "select_from P i (Text d # ns) = select_from P (Suc i) ns"
| "select_from P i (Comment c # ns) = select_from P (Suc i) ns"
| "select_from P i (Element n as cs # ns) =
     (if P n as cs then [[i]] else []) @ map ((#) i) (select_from P 0 cs)
       @ select_from P (Suc i) ns"

definition select :: "(string \<Rightarrow> attributes \<Rightarrow> node list \<Rightarrow> bool) \<Rightarrow> node list \<Rightarrow> nat list list" where
  "select P doc = select_from P 0 doc"

text \<open>The node at a position, and the update of the node at a position.\<close>

fun node_at :: "node list \<Rightarrow> nat list \<Rightarrow> node option" where
  "node_at ns [] = None"
| "node_at ns [i] = (if i < length ns then Some (ns ! i) else None)"
| "node_at ns (i # j # p) =
     (if i < length ns then
        (case ns ! i of Element n as cs \<Rightarrow> node_at cs (j # p) | _ \<Rightarrow> None)
      else None)"

fun update_at :: "(node \<Rightarrow> node) \<Rightarrow> nat list \<Rightarrow> node list \<Rightarrow> node list" where
  "update_at f [] ns = ns"
| "update_at f [i] ns = (if i < length ns then ns[i := f (ns ! i)] else ns)"
| "update_at f (i # j # p) ns =
     (if i < length ns then
        (case ns ! i of
           Element n as cs \<Rightarrow> ns[i := Element n as (update_at f (j # p) cs)]
         | _ \<Rightarrow> ns)
      else ns)"

text \<open>A selector that is a list of tag names, such as \<open>img, script, link\<close>.\<close>

definition has_tag :: "string list \<Rightarrow> string \<Rightarrow> attributes \<Rightarrow> node list \<Rightarrow> bool" where
  "has_tag names n as cs \<longleftrightarrow> n \<in> set names"

text \<open>
  A pass of the form \<open>$(tags).each(...)\<close> that only rewrites attributes of the selected
  elements visits them in document order; \<open>map_elements\<close> applies the rewriting to every
  element, and \<open>try_map_elements\<close> is the same for a callback that may throw, in which case
  the pass has no result.
\<close>

fun map_elements :: "(string \<Rightarrow> attributes \<Rightarrow> attributes) \<Rightarrow> node \<Rightarrow> node" where
  "map_elements f (Text d) = Text d"
| "map_elements f (Comment c) = Comment c"
| "map_elements f (Element n as cs) = Element n (f n as) (map (map_elements f) cs)"

fun try_map_elements :: "(string \<Rightarrow> attributes \<Rightarrow> attributes option) \<Rightarrow> node \<Rightarrow> node option" where
  "try_map_elements f (Text d) = Some (Text d)"
| "try_map_elements f (Comment c) = Some (Comment c)"
| "try_map_elements f (Element n as cs) =
     (case f n as of
        None \<Rightarrow> None
      | Some as' \<Rightarrow>
          (case those (map (try_map_elements f) cs) of
             None \<Rightarrow> None
           | Some cs' \<Rightarrow> Some (Element n as' cs')))"

text \<open>The attribute lists of the elements of a document, in document order.\<close>

fun elements_of :: "node \<Rightarrow> (string \<times> attributes \<times> node list) list" where
  "elements_of (Text d) = []"
| "elements_of (Comment c) = []"
| "elements_of (Element n as cs) = (n, as, cs) # concat (map elements_of cs)"

definition select_elements :: "string list \<Rightarrow> node list \<Rightarrow> (string \<times> attributes \<times> node list) list" where
  "select_elements names doc =
     filter (\<lambda>(n, as, cs). n \<in> set names) (concat (map elements_of doc))"

text \<open>The tag names of the elements whose text is extracted and translated.\<close>

definition text_tags :: "string list" where
  "text_tags = [''h1'', ''h2'', ''h3'', ''h4'', ''h5'', ''h6'', ''p'', ''span'', ''a'', ''button'']"

section \<open>URLs and the link discoverer\<close>

text \<open>
  Node's \<open>URL\<close> class is not part of the repository. The fields that the code reads are a
  record, and the constructor is a parameter of every function that calls it:
  \<open>parse input (Some base)\<close> stands for \<open>new URL(input, base)\<close>, \<open>parse input None\<close> for
  \<open>new URL(input)\<close>, and \<open>None\<close> for the TypeError of an input that does not parse.
\<close>

record url =
  protocol :: string
  hostname :: string
  pathname :: string
  search :: string
  href :: string

type_synonym url_parser = "string \<Rightarrow> string option \<Rightarrow> url option"

text \<open>
  \<open>isValidWebpagePath\<close> (src/server/index.js, lines 481 to 500). The seven patterns, in
  the order of the source: four prefixes, the extension list at the end of the string
  without regard to case, an at sign anywhere, and a colon before the first slash.
\<close>

definition ascii_lower :: "char \<Rightarrow> char" where
  "ascii_lower c =
     (case map_of (zip ''ABCDEFGHIJKLMNOPQRSTUVWXYZ'' ''abcdefghijklmnopqrstuvwxyz'') c of
        None \<Rightarrow> c
      | Some l \<Rightarrow> l)"

definition file_extensions :: "string list" where
  "file_extensions =
     [''jpg'', ''jpeg'', ''png'', ''gif'', ''ico'', ''css'', ''js'', ''pdf'', ''doc'', ''docx'', ''zip'']"

definition ends_with_extension :: "string \<Rightarrow> bool" where
  "ends_with_extension u \<longleftrightarrow>
     list_ex (\<lambda>e. suffix (CHR ''.'' # e) (map ascii_lower u)) file_extensions"

definition scheme_like :: "string \<Rightarrow> bool" where
  "scheme_like u \<longleftrightarrow> CHR '':'' \<in> set (takeWhile (\<lambda>c. c \<noteq> CHR ''/'') u)"

definition invalid_pattern :: "string \<Rightarrow> bool" where
  "invalid_pattern u \<longleftrightarrow>
     startsWith u ''mailto:'' \<or> startsWith u ''tel:'' \<or> startsWith u ''#'' \<or>
     startsWith u ''javascript:'' \<or> ends_with_extension u \<or> CHR ''@'' \<in> set u \<or>
     scheme_like u"

definition isValidWebpagePath :: "string \<Rightarrow> bool" where
  "isValidWebpagePath u =
     (if invalid_pattern u then False
      else startsWith u ''/'' \<or> startsWith u ''./'' \<or> startsWith u ''../'')"

text \<open>The \<open>href\<close> attribute of every anchor, in document order.\<close>

definition anchor_hrefs :: "node list \<Rightarrow> string option list" where
  "anchor_hrefs doc = map (\<lambda>(n, as, cs). attr as ''href'') (select_elements [''a''] doc)"

text \<open>
  \<open>getPageLinks\<close> of src/server/index.js (lines 503 to 530). An anchor without a \<open>href\<close>
  or with an empty one is skipped; so is one whose \<open>href\<close> does not parse, and one for which
  \<open>new URL(baseUrl)\<close> throws (the outer \<open>catch\<close>). The result is \<open>Array.from\<close> of the set.
\<close>

definition add_page_link :: "url_parser \<Rightarrow> string \<Rightarrow> string list \<Rightarrow> string option \<Rightarrow> string list" where
  "add_page_link parse baseUrl links h =
     (case h of
        None \<Rightarrow> links
      | Some target \<Rightarrow>
          if target = [] then links
          else
            (case parse target (Some baseUrl) of
               None \<Rightarrow> links
             | Some fullUrl \<Rightarrow>
                 (case parse baseUrl None of
                    None \<Rightarrow> links
                  | Some base \<Rightarrow>
                      if hostname fullUrl = hostname base \<and>
                         isValidWebpagePath (pathname fullUrl)
                      then set_add links (pathname fullUrl)
                      else links)))"

definition getPageLinks :: "url_parser \<Rightarrow> node list \<Rightarrow> string \<Rightarrow> string list" where
  "getPageLinks parse html baseUrl = foldl (add_page_link parse baseUrl) [] (anchor_hrefs html)"



text \<open>
  A URL constructor for the examples, with the base \<open>https://example.com\<close>. It covers
  seven kinds of input, on which it agrees with \<open>new URL\<close>: an https URL given in full,
  whose host is made of lower-case letters and single dots and whose path, if any, is made
  of lower-case letters, digits, slashes, dots, hyphens and underscores, with no segment
  starting with a dot; a reference that starts with two slashes, or with a slash and a
  backslash, which takes the scheme of the base (for http and https the backslash counts as
  a slash); a reference that starts with one slash, which takes scheme and host of the base;
  a \<open>data:\<close> URL made of letters, digits and the characters \<open>:;,/+=\<close>, from which the
  constructor removes tabs and line breaks; a \<open>mailto:\<close> URL made of lower-case letters,
  digits and the characters \<open>@._-\<close>; and a URL of the scheme \<open>app\<close>, which is not one of the
  special schemes, with the host \<open>example.com\<close> and a path that may hold backslashes, which
  are kept. Any other input is outside the examples and is answered like one that does not
  parse.
\<close>

definition site_path :: "string \<Rightarrow> bool" where
  "site_path s \<longleftrightarrow>
     startsWith s ''/'' \<and> \<not> js_includes s ''/.'' \<and>
     list_all (\<lambda>c. c \<in> set ''abcdefghijklmnopqrstuvwxyz0123456789/._-'') s"

definition host_name :: "string \<Rightarrow> bool" where
  "host_name h \<longleftrightarrow>
     h \<noteq> [] \<and> list_all (\<lambda>c. c \<in> set ''abcdefghijklmnopqrstuvwxyz.'') h \<and>
     \<not> startsWith h ''.'' \<and> \<not> js_includes h ''..'' \<and> \<not> suffix ''.'' h"

definition url_host :: "string \<Rightarrow> string" where
  "url_host w = takeWhile (\<lambda>c. c \<noteq> CHR ''/'') (drop 8 w)"

definition url_path :: "string \<Rightarrow> string" where
  "url_path w = dropWhile (\<lambda>c. c \<noteq> CHR ''/'') (drop 8 w)"

definition https_url :: "string \<Rightarrow> bool" where
  "https_url w \<longleftrightarrow>
     startsWith w ''https://'' \<and> host_name (url_host w) \<and>
     (url_path w = [] \<or> site_path (url_path w))"

definition https_parts :: "string \<Rightarrow> url" where
  "https_parts w =
     (let p = (if url_path w = [] then ''/'' else url_path w)
      in \<lparr>protocol = ''https:'', hostname = url_host w, pathname = p, search = [],
          href = ''https://'' @ url_host w @ p\<rparr>)"

definition tab_or_newline :: "char \<Rightarrow> bool" where
  "tab_or_newline c \<longleftrightarrow> c = CHR 0x09 \<or> c = CHR 0x0A \<or> c = CHR 0x0D"

definition data_url :: "string \<Rightarrow> bool" where
  "data_url s \<longleftrightarrow>
     startsWith s ''data:'' \<and> \<not> startsWith s ''data:/'' \<and>
     list_all (\<lambda>c. c \<in> set (''abcdefghijklmnopqrstuvwxyz'' @ ''ABCDEFGHIJKLMNOPQRSTUVWXYZ''
                                 @ ''0123456789:;,/+='')) s"

definition mailto_url :: "string \<Rightarrow> bool" where
  "mailto_url s \<longleftrightarrow>
     startsWith s ''mailto:'' \<and> drop 7 s \<noteq> [] \<and>
     list_all (\<lambda>c. c \<in> set ''abcdefghijklmnopqrstuvwxyz0123456789@._-'') (drop 7 s)"

definition app_url :: "string \<Rightarrow> bool" where
  "app_url s \<longleftrightarrow>
     startsWith s ''app://example.com/'' \<and> \<not> js_includes s ''/.'' \<and>
     list_all (\<lambda>c. c \<in> set (''abcdefghijklmnopqrstuvwxyz0123456789/._-'' @ [CHR 0x5C]))
       (drop 17 s)"

definition sample_parse :: url_parser where
  "sample_parse input base =
     (if https_url input then Some (https_parts input)
      else if data_url (filter (\<lambda>c. \<not> tab_or_newline c) input) then
        Some \<lparr>protocol = ''data:'', hostname = [],
              pathname = drop 5 (filter (\<lambda>c. \<not> tab_or_newline c) input), search = [],
              href = filter (\<lambda>c. \<not> tab_or_newline c) input\<rparr>
      else if mailto_url input then
        Some \<lparr>protocol = ''mailto:'', hostname = [], pathname = drop 7 input, search = [],
              href = input\<rparr>
      else if app_url input then
        Some \<lparr>protocol = ''app:'', hostname = ''example.com'', pathname = drop 17 input,
              search = [], href = input\<rparr>
      else if base = Some ''https://example.com'' \<and> startsWith input ''//'' \<and>
              https_url (''https:'' @ input) then
        Some (https_parts (''https:'' @ input))
      else if base = Some ''https://example.com'' \<and> startsWith input [CHR ''/'', CHR 0x5C] \<and>
              https_url (''https://'' @ drop 2 input) then
        Some (https_parts (''https://'' @ drop 2 input))
      else if base = Some ''https://example.com'' \<and> startsWith input ''/'' \<and>
              \<not> startsWith input ''//'' \<and> https_url (''https://example.com'' @ input) then
        Some (https_parts (''https://example.com'' @ input))
      else None)"








section \<open>The translation store\<close>

text \<open>
  The two tables of src/server/index.js (lines 22 to 43) as lists of rows in the order of
  insertion. \<open>translated_text\<close> is the only nullable column.
\<close>

record website =
  ws_id :: nat
  ws_domain :: string

record translation_row =
  row_id :: nat
  website_id :: nat
  original_text :: string
  translated_text :: "string option"
  language :: string
  row_path :: string
  element_type :: string

record database =
  tbl_websites :: "website list"
  tbl_translations :: "translation_row list"

text \<open>The prepared statements; \<open>.get\<close> returns the first row and \<open>.all\<close> every row.\<close>

definition findWebsite :: "database \<Rightarrow> string \<Rightarrow> website option" where
  "findWebsite db d = find (\<lambda>w. ws_domain w = d) (tbl_websites db)"

definition getWebsiteByDomain :: "database \<Rightarrow> string \<Rightarrow> website option" where
  "getWebsiteByDomain db d = find (\<lambda>w. ws_domain w = d) (tbl_websites db)"

definition getTranslations :: "database \<Rightarrow> nat \<Rightarrow> string \<Rightarrow> string \<Rightarrow> translation_row list" where
  "getTranslations db wid p lang =
     filter (\<lambda>r. website_id r = wid \<and> row_path r = p \<and> language r = lang) (tbl_translations db)"

text \<open>
  \<open>getTranslation\<close> joins the two tables and returns the \<open>translated_text\<close> column of the
  first match: \<open>None\<close> when no row matches, \<open>Some None\<close> for a row whose translation is null.
  The statement has no \<open>ORDER BY\<close>; among several matches the model takes the one inserted
  first.
\<close>

definition getTranslation :: "database \<Rightarrow> string \<Rightarrow> string \<Rightarrow> string \<Rightarrow> string option option" where
  "getTranslation db d txt lang =
     map_option translated_text
       (find (\<lambda>r. list_ex (\<lambda>w. ws_id w = website_id r \<and> ws_domain w = d) (tbl_websites db) \<and>
                   original_text r = txt \<and> language r = lang)
             (tbl_translations db))"

definition findUntranslated :: "database \<Rightarrow> nat \<Rightarrow> translation_row list" where
  "findUntranslated db wid =
     filter (\<lambda>r. website_id r = wid \<and> translated_text r = None) (tbl_translations db)"

definition updateTranslation :: "database \<Rightarrow> string option \<Rightarrow> string \<Rightarrow> nat \<Rightarrow> database" where
  "updateTranslation db txt lang rid =
     db\<lparr>tbl_translations :=
          map (\<lambda>r. if row_id r = rid then r\<lparr>translated_text := txt, language := lang\<rparr> else r)
              (tbl_translations db)\<rparr>"

section \<open>The translation client\<close>

text \<open>
  The values that \<open>response.data.translatedText\<close> can hold, as far as the callers tell them
  apart: undefined (the property is missing, or the body is not an object), null, a string,
  a number (given by the text that a column of type TEXT keeps for it), or another value
  (a boolean, an object, an array).
\<close>

datatype js_value = JUndefined | JNull | JString string | JNumber string | JOther

text \<open>
  What \<open>axios.post\<close> does: it rejects (network error, timeout, a status outside 2xx), or it
  resolves with a response whose \<open>data\<close> is null or undefined (\<open>NoData\<close>), or with a
  response whose \<open>data\<close> has a readable property \<open>translatedText\<close>.
\<close>

datatype response_data = NoData | Data js_value

datatype axios_outcome = Rejected string | Resolved response_data

type_synonym backend = "string \<Rightarrow> string \<Rightarrow> axios_outcome"

text \<open>
  \<open>translateText\<close> (src/server/index.js, lines 85 to 98). The \<open>try\<close> body throws when the
  request rejects and when a property of null or undefined is read; the \<open>catch\<close> returns the
  input text.
\<close>

definition translateText_try :: "backend \<Rightarrow> string \<Rightarrow> string \<Rightarrow> js_value js_result" where
  "translateText_try post txt targetLanguage =
     (case post txt targetLanguage of
        Rejected e \<Rightarrow> Throws e
      | Resolved NoData \<Rightarrow> Throws ''TypeError: Cannot read properties of undefined''
      | Resolved (Data v) \<Rightarrow> Returns v)"

definition translateText :: "backend \<Rightarrow> string \<Rightarrow> string \<Rightarrow> js_value js_result" where
  "translateText post txt targetLanguage =
     (case translateText_try post txt targetLanguage of
        Returns v \<Rightarrow> Returns v
      | Throws e \<Rightarrow> Returns (JString txt))"

section \<open>POST /api/translate-website\<close>

text \<open>
  The store binds a string as text, a number as a number, which the column of type TEXT
  keeps as text, and null and undefined as NULL; it rejects any other value with a
  TypeError. The loop of lines 715 to 722 makes one backend call per row; the
  \<open>k\<close>-th call has the outcome \<open>post k\<close>, so that equal texts may be answered differently.
  An exception leaves the loop, keeps the updates already made and is answered with 500.
\<close>

fun bind_text :: "js_value \<Rightarrow> string option js_result" where
  "bind_text (JString s) = Returns (Some s)"
| "bind_text (JNumber s) = Returns (Some s)"
| "bind_text JNull = Returns None"
| "bind_text JUndefined = Returns None"
| "bind_text JOther = Throws ''TypeError: SQLite3 can only bind numbers, strings, bigints, buffers, and null''"

record json_response =
  status :: nat
  message :: string

fun translate_items ::
  "(nat \<Rightarrow> backend) \<Rightarrow> nat \<Rightarrow> string \<Rightarrow> translation_row list \<Rightarrow> database \<Rightarrow> database js_result \<times> database"
where
  "translate_items post k targetLanguage [] db = (Returns db, db)"
| "translate_items post k targetLanguage (item # items) db =
     (case translateText (post k) (original_text item) targetLanguage of
        Throws e \<Rightarrow> (Throws e, db)
      | Returns translatedText \<Rightarrow>
          (case bind_text translatedText of
             Throws e \<Rightarrow> (Throws e, db)
           | Returns v \<Rightarrow>
               translate_items post (Suc k) targetLanguage items
                 (updateTranslation db v targetLanguage (row_id item))))"

definition translate_website ::
  "(nat \<Rightarrow> backend) \<Rightarrow> nat \<Rightarrow> string \<Rightarrow> database \<Rightarrow> json_response \<times> database" where
  "translate_website post websiteId targetLanguage db =
     (case translate_items post 0 targetLanguage (findUntranslated db websiteId) db of
        (Returns done, db') \<Rightarrow> (\<lparr>status = 200, message = ''Website translated successfully''\<rparr>, db')
      | (Throws e, db') \<Rightarrow> (\<lparr>status = 500, message = ''Failed to translate website''\<rparr>, db'))"

text \<open>An outcome after which a text is stored: the request failed, or the response has no
  data, or its \<open>translatedText\<close> is a string or a number.\<close>

definition text_outcome :: "axios_outcome \<Rightarrow> bool" where
  "text_outcome out \<longleftrightarrow>
     (case out of
        Rejected e \<Rightarrow> True
      | Resolved NoData \<Rightarrow> True
      | Resolved (Data (JString s)) \<Rightarrow> True
      | Resolved (Data (JNumber s)) \<Rightarrow> True
      | Resolved (Data v) \<Rightarrow> False)"

definition translated_rows :: "nat set \<Rightarrow> translation_row \<Rightarrow> translation_row \<Rightarrow> bool" where
  "translated_rows ids r r' \<longleftrightarrow>
     row_id r' = row_id r \<and> website_id r' = website_id r \<and>
     (if row_id r \<in> ids then translated_text r' \<noteq> None else r' = r)"

text \<open>
  A store with one site and one untranslated fragment, and three backends: one whose every
  call fails, one that answers 200 with a body without \<open>translatedText\<close>, and one that
  answers 200 with \<open>translatedText\<close> null.
\<close>

definition sample_db :: database where
  "sample_db =
     \<lparr>tbl_websites = [\<lparr>ws_id = 1, ws_domain = ''example.com''\<rparr>],
      tbl_translations =
        [\<lparr>row_id = 1, website_id = 1, original_text = ''Hello'', translated_text = None,
          language = ''en'', row_path = ''/'', element_type = ''p''\<rparr>]\<rparr>"

definition backend_down :: backend where
  "backend_down q target = Rejected ''connect ECONNREFUSED 127.0.0.1:5050''"

definition backend_empty_object :: backend where
  "backend_empty_object q target = Resolved (Data JUndefined)"

definition backend_null_text :: backend where
  "backend_null_text q target = Resolved (Data JNull)"

section \<open>The crawl of POST /api/map-website\<close>

record page_info =
  path :: string
  title :: string
  textCount :: nat

text \<open>
  The state of the crawl loop (src/server/index.js, lines 547 to 588): the three
  collections of the source and, as the trace of its network effect, the paths for which
  \<open>axios.get\<close> was called, in call order.
\<close>

record crawl_state =
  pagesQueue :: "string list"
  visitedPages :: "string list"
  foundPages :: "page_info list"
  requested :: "string list"

definition maxPages :: nat where
  "maxPages = 20"

text \<open>
  The body of the \<open>try\<close> block for one path is a parameter \<open>scan\<close>: \<open>None\<close> when the
  fetch (or the parsing) throws, so that the \<open>catch\<close> only logs; otherwise the title and
  the text count of the page and the links that \<open>getPageLinks\<close> returned.
\<close>

type_synonym page_scan = "string \<Rightarrow> (string \<times> nat \<times> string list) option"

definition enqueue_links :: "string list \<Rightarrow> string list \<Rightarrow> string list \<Rightarrow> string list" where
  "enqueue_links visited queue links =
     foldl (\<lambda>q link. if link \<notin> set visited then set_add q link else q) queue links"

definition crawl_step :: "page_scan \<Rightarrow> crawl_state \<Rightarrow> crawl_state" where
  "crawl_step scan st =
     (let currentPath = hd (pagesQueue st);
          queue = set_delete (pagesQueue st) currentPath
      in if currentPath \<in> set (visitedPages st) then st\<lparr>pagesQueue := queue\<rparr>
         else
           let visited = set_add (visitedPages st) currentPath;
               reqs = requested st @ [currentPath]
           in (case scan currentPath of
                 None \<Rightarrow>
                   st\<lparr>pagesQueue := queue, visitedPages := visited, requested := reqs\<rparr>
               | Some (t, n, links) \<Rightarrow>
                   st\<lparr>pagesQueue := enqueue_links visited queue links,
                      visitedPages := visited,
                      foundPages :=
                        foundPages st @ [\<lparr>path = currentPath, title = t, textCount = n\<rparr>],
                      requested := reqs\<rparr>))"

definition crawl_continues :: "crawl_state \<Rightarrow> bool" where
  "crawl_continues st \<longleftrightarrow> length (pagesQueue st) > 0 \<and> length (visitedPages st) < maxPages"

function crawl_loop :: "page_scan \<Rightarrow> crawl_state \<Rightarrow> crawl_state" where
  "crawl_loop scan st =
     (if crawl_continues st then crawl_loop scan (crawl_step scan st) else st)"
  by pat_completeness auto
termination
proof (relation "measures [\<lambda>(scan, st). maxPages - length (visitedPages st),
                           \<lambda>(scan, st). length (pagesQueue st)]")
  show "wf (measures [\<lambda>(scan, st). maxPages - length (visitedPages st),
                      \<lambda>(scan, st). length (pagesQueue st)])"
    by simp
next
  fix scan :: page_scan and st :: crawl_state
  assume c: "crawl_continues st"
  then obtain p ps where q: "pagesQueue st = p # ps"
    by (cases "pagesQueue st") (auto simp: crawl_continues_def)
  have del: "length (set_delete (pagesQueue st) p) < length (pagesQueue st)"
    using q length_removeAll_less [of p "pagesQueue st"] by (simp add: set_delete_def)
  show "((scan, crawl_step scan st), (scan, st))
        \<in> measures [\<lambda>(scan, st). maxPages - length (visitedPages st),
                     \<lambda>(scan, st). length (pagesQueue st)]"
  proof (cases "p \<in> set (visitedPages st)")
    case True
    then show ?thesis
      using q del by (simp add: crawl_step_def Let_def)
  next
    case False
    then have "length (set_add (visitedPages st) p) = Suc (length (visitedPages st))"
      by (simp add: set_add_def)
    then show ?thesis
      using q c False
      by (auto simp: crawl_step_def Let_def crawl_continues_def split: option.splits)
  qed
qed

declare crawl_loop.simps [simp del]

definition crawl_init :: "string \<Rightarrow> crawl_state" where
  "crawl_init seed =
     \<lparr>pagesQueue = [seed], visitedPages = [], foundPages = [], requested = []\<rparr>"


text \<open>
  The link graph that the crawl walks: the links of a path are what \<open>getPageLinks\<close>
  returned for it, and none when its fetch failed. The reachable paths are those connected
  to the seed in this graph.
\<close>

definition links_of :: "page_scan \<Rightarrow> string \<Rightarrow> string list" where
  "links_of scan p = (case scan p of None \<Rightarrow> [] | Some (t, n, links) \<Rightarrow> links)"

definition link_edges :: "page_scan \<Rightarrow> (string \<times> string) set" where
  "link_edges scan = {(p, q). q \<in> set (links_of scan p)}"

definition reachable :: "page_scan \<Rightarrow> string \<Rightarrow> string set" where
  "reachable scan seed = {q. (seed, q) \<in> (link_edges scan)\<^sup>*}"

definition crawl_inv :: "page_scan \<Rightarrow> string \<Rightarrow> crawl_state \<Rightarrow> bool" where
  "crawl_inv scan seed st \<longleftrightarrow>
     distinct (pagesQueue st) \<and> distinct (visitedPages st) \<and>
     set (pagesQueue st) \<inter> set (visitedPages st) = {} \<and>
     set (visitedPages st) \<union> set (pagesQueue st) \<subseteq> reachable scan seed \<and>
     seed \<in> set (visitedPages st) \<union> set (pagesQueue st) \<and>
     (\<forall>v \<in> set (visitedPages st).
        set (links_of scan v) \<subseteq> set (visitedPages st) \<union> set (pagesQueue st)) \<and>
     requested st = visitedPages st \<and>
     map path (foundPages st) = filter (\<lambda>p. scan p \<noteq> None) (visitedPages st) \<and>
     length (visitedPages st) \<le> maxPages"

text \<open>
  A small site for the examples: the home page links to \<open>/a\<close>, \<open>/b\<close> and \<open>/c\<close>, \<open>/b\<close> links
  back to \<open>/a\<close>, and the fetch of \<open>/c\<close> fails.
\<close>

definition sample_scan :: page_scan where
  "sample_scan p =
     (if p = ''/'' then Some (''Home'', 12, [''/a'', ''/b'', ''/c''])
      else if p = ''/a'' then Some (''A'', 5, [])
      else if p = ''/b'' then Some (''/b'', 7, [''/a''])
      else None)"

text \<open>
  The distance of a path from the seed is the length of a shortest chain of links to it;
  a traversal is breadth-first when it visits paths in order of non-decreasing distance.
\<close>

definition link_distance :: "page_scan \<Rightarrow> string \<Rightarrow> string \<Rightarrow> nat" where
  "link_distance scan seed q = (LEAST n. (seed, q) \<in> link_edges scan ^^ n)"

definition bfs_inv :: "page_scan \<Rightarrow> string \<Rightarrow> crawl_state \<Rightarrow> bool" where
  "bfs_inv scan seed st \<longleftrightarrow>
     crawl_inv scan seed st \<and>
     sorted (map (link_distance scan seed) (visitedPages st @ pagesQueue st)) \<and>
     (\<forall>q \<in> set (pagesQueue st).
        link_distance scan seed q \<le> Suc (link_distance scan seed (hd (pagesQueue st))))"
section \<open>The content rewriter\<close>

subsection \<open>Text substitution\<close>

text \<open>
  \<open>walkAndReplace\<close> (src/server/index.js, lines 172 to 183, and the copies at lines 296
  to 307 and in src/unnamed/part_000): a text node that contains the original text has its
  first occurrence replaced by \<open>translated_text || original_text\<close>; every child is walked. A
  comment has no children.
\<close>

fun walkAndReplace :: "translation_row \<Rightarrow> node \<Rightarrow> node" where
  "walkAndReplace tr (Text v) =
     (if js_includes v (original_text tr)
      then Text (js_replace v (original_text tr)
                   (js_or (translated_text tr) (original_text tr)))
      else Text v)"
| "walkAndReplace tr (Comment c) = Comment c"
| "walkAndReplace tr (Element n as cs) = Element n as (map (walkAndReplace tr) cs)"

text \<open>
  The selector \<open>element_type:contains("original_text")\<close> selects the elements with that tag
  name whose text contains the original text. The selection is made before the walk, and the
  selected elements are walked in document order, an element inside another selected
  element a second time. (An original text with a double quote, a backslash or a parenthesis
  does not give this selector; such texts are outside the model.)
\<close>

definition contains_selector :: "string \<Rightarrow> string \<Rightarrow> string \<Rightarrow> attributes \<Rightarrow> node list \<Rightarrow> bool" where
  "contains_selector ty txt n as cs \<longleftrightarrow> n = ty \<and> js_includes (getText (Element n as cs)) txt"

definition replace_translation :: "translation_row \<Rightarrow> node list \<Rightarrow> node list" where
  "replace_translation tr doc =
     foldl (\<lambda>d pos. update_at (walkAndReplace tr) pos d) doc
       (select (contains_selector (element_type tr) (original_text tr)) doc)"

definition replace_translations :: "translation_row list \<Rightarrow> node list \<Rightarrow> node list" where
  "replace_translations trs doc = foldl (\<lambda>d tr. replace_translation tr d) doc trs"

text \<open>What the substitution must not touch: the document with the data of every text node
  erased, and the bodies of the script and style elements.\<close>

fun skeleton :: "node \<Rightarrow> node" where
  "skeleton (Text d) = Text []"
| "skeleton (Comment c) = Comment c"
| "skeleton (Element n as cs) = Element n as (map skeleton cs)"

fun script_bodies :: "node \<Rightarrow> string list" where
  "script_bodies (Text d) = []"
| "script_bodies (Comment c) = []"
| "script_bodies (Element n as cs) =
     (if n = ''script'' \<or> n = ''style'' then [concat (map getText cs)] else [])
       @ concat (map script_bodies cs)"

subsection \<open>Internal links\<close>

text \<open>
  The link pass of the view handlers (lines 315 to 327): an anchor whose \<open>href\<close> resolves
  to the site's hostname is pointed at the proxy, with the language as the query. The
  variant of \<open>serveTranslatedWebsite\<close> (lines 191 to 205) leaves fragment references alone.
\<close>

definition proxied_href :: "url_parser \<Rightarrow> string \<Rightarrow> string \<Rightarrow> string \<Rightarrow> string option" where
  "proxied_href parse domain lang target =
     (case parse target (Some (''https://'' @ domain)) of
        None \<Rightarrow> None
      | Some hrefUrl \<Rightarrow>
          if hostname hrefUrl = domain
          then Some (''/view/'' @ domain @ pathname hrefUrl @ search hrefUrl @ ''?lang='' @ lang)
          else None)"

definition proxy_anchor :: "url_parser \<Rightarrow> string \<Rightarrow> string \<Rightarrow> string \<Rightarrow> attributes \<Rightarrow> attributes" where
  "proxy_anchor parse domain lang n as =
     (if n = ''a'' then
        (case attr as ''href'' of
           None \<Rightarrow> as
         | Some target \<Rightarrow>
             if target = [] then as
             else (case proxied_href parse domain lang target of
                     None \<Rightarrow> as
                   | Some target' \<Rightarrow> set_attr as ''href'' target'))
      else as)"

definition proxy_anchor_serve :: "url_parser \<Rightarrow> string \<Rightarrow> string \<Rightarrow> string \<Rightarrow> attributes \<Rightarrow> attributes" where
  "proxy_anchor_serve parse domain lang n as =
     (if n = ''a'' then
        (case attr as ''href'' of
           None \<Rightarrow> as
         | Some target \<Rightarrow>
             if target = [] \<or> startsWith target ''#'' then as
             else (case proxied_href parse domain lang target of
                     None \<Rightarrow> as
                   | Some target' \<Rightarrow> set_attr as ''href'' target'))
      else as)"

subsection \<open>Asset references\<close>

text \<open>
  The asset pass of \<open>serveTranslatedWebsite\<close> (lines 218 to 231): on six kinds of
  elements, each of \<open>src\<close>, \<open>href\<close> and \<open>poster\<close> that is non-empty and starts with neither
  \<open>http\<close> nor \<open>data:\<close> is replaced by its resolution against the base; a value that does not
  parse is left as it is.
\<close>

definition fix_asset_attr :: "url_parser \<Rightarrow> string \<Rightarrow> attributes \<Rightarrow> string \<Rightarrow> attributes" where
  "fix_asset_attr parse baseUrl as name =
     (case attr as name of
        None \<Rightarrow> as
      | Some v \<Rightarrow>
          if v \<noteq> [] \<and> \<not> startsWith v ''http'' \<and> \<not> startsWith v ''data:'' then
            (case parse v (Some baseUrl) of
               None \<Rightarrow> as
             | Some absoluteUrl \<Rightarrow> set_attr as name (href absoluteUrl))
          else as)"

definition fix_assets_serve :: "url_parser \<Rightarrow> string \<Rightarrow> string \<Rightarrow> attributes \<Rightarrow> attributes" where
  "fix_assets_serve parse baseUrl n as =
     (if n \<in> set [''img'', ''script'', ''link'', ''source'', ''video'', ''audio'']
      then foldl (fix_asset_attr parse baseUrl) as [''src'', ''href'', ''poster'']
      else as)"

definition serve_assets :: "url_parser \<Rightarrow> string \<Rightarrow> node list \<Rightarrow> node list" where
  "serve_assets parse baseUrl doc = map (map_elements (fix_assets_serve parse baseUrl)) doc"

text \<open>
  The asset pass of GET /view/:domain (lines 330 to 341): on three kinds of elements, the
  value \<open>src || href\<close>, when non-empty and not starting with \<open>http\<close>, is resolved against the
  site and written to \<open>src\<close> if that attribute is non-empty, to \<open>href\<close> otherwise. Nothing
  catches the TypeError of a value that does not parse: the pass then has no result and the
  handler answers 500.
\<close>

definition fix_assets_root :: "url_parser \<Rightarrow> string \<Rightarrow> string \<Rightarrow> attributes \<Rightarrow> attributes option" where
  "fix_assets_root parse domain n as =
     (if n \<in> set [''img'', ''script'', ''link''] then
        (case (if truthy (attr as ''src'') then attr as ''src'' else attr as ''href'') of
           None \<Rightarrow> Some as
         | Some src \<Rightarrow>
             if src \<noteq> [] \<and> \<not> startsWith src ''http'' then
               (case parse src (Some (''https://'' @ domain)) of
                  None \<Rightarrow> None
                | Some absoluteSrc \<Rightarrow>
                    if truthy (attr as ''src'')
                    then Some (set_attr as ''src'' (href absoluteSrc))
                    else Some (set_attr as ''href'' (href absoluteSrc)))
             else Some as)
      else Some as)"

definition root_assets :: "url_parser \<Rightarrow> string \<Rightarrow> node list \<Rightarrow> node list option" where
  "root_assets parse domain doc = those (map (try_map_elements (fix_assets_root parse domain)) doc)"

text \<open>
  What the documentation of \<open>URL\<close> promises of \<open>href\<close>: it is not empty, and parsing it
  again gives the same \<open>href\<close>.
\<close>

definition href_stable :: "url_parser \<Rightarrow> string \<Rightarrow> bool" where
  "href_stable parse baseUrl \<longleftrightarrow>
     (\<forall>v u. parse v (Some baseUrl) = Some u \<longrightarrow>
        href u \<noteq> [] \<and> (\<exists>u'. parse (href u) (Some baseUrl) = Some u' \<and> href u' = href u))"

text \<open>An attribute value on which the asset pass of \<open>serveTranslatedWebsite\<close> has nothing
  left to do.\<close>

definition asset_settled :: "url_parser \<Rightarrow> string \<Rightarrow> string option \<Rightarrow> bool" where
  "asset_settled parse baseUrl w \<longleftrightarrow>
     (case w of
        None \<Rightarrow> True
      | Some v \<Rightarrow>
          v = [] \<or> startsWith v ''http'' \<or> startsWith v ''data:'' \<or>
          (case parse v (Some baseUrl) of None \<Rightarrow> True | Some u \<Rightarrow> href u = v))"

text \<open>
  Records and pages for the examples: the translated fragment of the specification's
  scenario, an untranslated fragment with dollar signs, a paragraph with a script in it, and
  a paragraph whose link has a title equal to its text.
\<close>

definition hello_row :: translation_row where
  "hello_row =
     \<lparr>row_id = 1, website_id = 1, original_text = ''Hello'', translated_text = Some ''Hola'',
      language = ''es'', row_path = ''/'', element_type = ''p''\<rparr>"

definition dollars_row :: translation_row where
  "dollars_row =
     \<lparr>row_id = 2, website_id = 1, original_text = ''Save $$$'', translated_text = None,
      language = ''en'', row_path = ''/'', element_type = ''p''\<rparr>"

definition script_page :: "node list" where
  "script_page =
     [Element ''p'' [(''title'', ''Hello'')]
        [Text ''Hello'', Element ''script'' [] [Text ''greet(1, Hello)'']]]"

definition titled_link :: node where
  "titled_link =
     Element ''p'' []
       [Element ''a'' [(''title'', ''Hello''), (''href'', ''/x'')] [Text ''Hello'']]"

definition hello_db :: database where
  "hello_db =
     \<lparr>tbl_websites = [\<lparr>ws_id = 1, ws_domain = ''example.com''\<rparr>],
      tbl_translations = [hello_row]\<rparr>"

text \<open>A page with a relative image, a style sheet given in full, and an image whose
  \<open>data:\<close> URL is broken over two lines.\<close>

definition assets_page :: "node list" where
  "assets_page =
     [Element ''img'' [(''src'', ''/logo.png''), (''alt'', ''http'')] [],
      Element ''link'' [(''rel'', ''stylesheet''), (''href'', ''https://example.com/site.css'')] []]"

definition wrapped_data_page :: "node list" where
  "wrapped_data_page =
     [Element ''img'' [(''src'', ''data:image/gif;base64,R0lG'' @ [CHR 0x0A] @ ''ODlh'')] []]"

text \<open>The page of the site whose only paragraph is the titled link.\<close>

definition titled_link_page :: "node list" where
  "titled_link_page =
     [Element ''html'' [] [Element ''head'' [] [], Element ''body'' [] [titled_link]]]"

section \<open>The view handlers\<close>

text \<open>
  A handler answers with the rewritten document (status 200, \<open>res.send($.html())\<close>) or with
  a status and a message. Its network effect is the list of the URLs passed to
  \<open>axios.get\<close>. The fetch is a parameter: it returns the document that \<open>cheerio.load\<close>
  builds from the response, or throws with a message.
\<close>

datatype view_response = Html "node list" | Failed nat string

type_synonym fetcher = "string \<Rightarrow> node list js_result"

type_synonym view_outcome = "view_response \<times> string list"

text \<open>\<open>req.query.lang || 'en'\<close>, the query parameter being absent (\<open>None\<close>) or a string.\<close>

definition query_lang :: "string option \<Rightarrow> string" where
  "query_lang q = js_or q ''en''"

subsection \<open>Passes that replace the children of the selected elements\<close>

text \<open>
  \<open>$el.text(s)\<close> and \<open>$el.html(s)\<close> replace the children of an element. The selection was
  made before the loop, so a selected element below an element whose children were replaced
  is no longer part of the document when its turn comes, and what the loop does to it does
  not show. \<open>f\<close> gives the new children, or \<open>None\<close> to leave the element alone.
\<close>

definition replace_children_step ::
  "(node \<Rightarrow> node list option) \<Rightarrow> node list \<times> nat list list \<Rightarrow> nat list \<Rightarrow> node list \<times> nat list list" where
  "replace_children_step f st pos =
     (case st of (doc, replaced) \<Rightarrow>
        if list_ex (\<lambda>r. prefix r pos \<and> r \<noteq> pos) replaced then (doc, replaced)
        else
          (case node_at doc pos of
             Some (Element n as cs) \<Rightarrow>
               (case f (Element n as cs) of
                  None \<Rightarrow> (doc, replaced)
                | Some cs' \<Rightarrow> (update_at (\<lambda>old. Element n as cs') pos doc, pos # replaced))
           | _ \<Rightarrow> (doc, replaced)))"

definition replace_children_pass ::
  "(node \<Rightarrow> node list option) \<Rightarrow> string list \<Rightarrow> node list \<Rightarrow> node list" where
  "replace_children_pass f names doc =
     fst (foldl (replace_children_step f) (doc, []) (select (has_tag names) doc))"

subsection \<open>GET /view/:domain\<close>

text \<open>
  The last pass of the handler in src/server/index.js (lines 344 to 355): an element whose
  trimmed text has a non-empty translation on record gets that translation as its only
  child.
\<close>

definition translated_text_of :: "database \<Rightarrow> string \<Rightarrow> string \<Rightarrow> node \<Rightarrow> node list option" where
  "translated_text_of db domain lang el =
     (let originalText = trim (cheerio_text el) in
      if originalText = [] then None
      else
        (case getTranslation db domain originalText lang of
           Some (Some t) \<Rightarrow> if t = [] then None else Some [Text t]
         | _ \<Rightarrow> None))"

definition view_root :: "url_parser \<Rightarrow> database \<Rightarrow> fetcher \<Rightarrow> string \<Rightarrow> string option \<Rightarrow> view_outcome" where
  "view_root parse db axios_get domain lang =
     (let language = query_lang lang in
      case findWebsite db domain of
        None \<Rightarrow> (Failed 404 ''Website not found'', [])
      | Some website \<Rightarrow>
          (let trs = getTranslations db (ws_id website) ''/'' language;
               target = ''https://'' @ domain
           in case axios_get target of
                Throws e \<Rightarrow> (Failed 500 (''Error loading translated website: '' @ e), [target])
              | Returns doc \<Rightarrow>
                  (case root_assets parse domain
                          (map (map_elements (proxy_anchor parse domain language))
                               (replace_translations trs doc)) of
                     None \<Rightarrow>
                       (Failed 500 ''Error loading translated website: Invalid URL'', [target])
                   | Some doc' \<Rightarrow>
                       (Html (replace_children_pass (translated_text_of db domain language)
                                text_tags doc'),
                        [target]))))"

text \<open>The two handlers of src/unnamed/part_000 (lines 241 to 442) stop after the asset pass;
  the one for sub-paths looks up and fetches the path \<open>'/' + req.params[0]\<close>.\<close>

definition view_root_part0 :: "url_parser \<Rightarrow> database \<Rightarrow> fetcher \<Rightarrow> string \<Rightarrow> string option \<Rightarrow> view_outcome" where
  "view_root_part0 parse db axios_get domain lang =
     (let language = query_lang lang in
      case findWebsite db domain of
        None \<Rightarrow> (Failed 404 ''Website not found'', [])
      | Some website \<Rightarrow>
          (let trs = getTranslations db (ws_id website) ''/'' language;
               target = ''https://'' @ domain
           in case axios_get target of
                Throws e \<Rightarrow> (Failed 500 (''Error loading translated website: '' @ e), [target])
              | Returns doc \<Rightarrow>
                  (case root_assets parse domain
                          (map (map_elements (proxy_anchor parse domain language))
                               (replace_translations trs doc)) of
                     None \<Rightarrow>
                       (Failed 500 ''Error loading translated website: Invalid URL'', [target])
                   | Some doc' \<Rightarrow> (Html doc', [target]))))"

definition view_sub_part0 :: "url_parser \<Rightarrow> database \<Rightarrow> fetcher \<Rightarrow> string \<Rightarrow> string \<Rightarrow> string option \<Rightarrow> view_outcome" where
  "view_sub_part0 parse db axios_get domain rest lang =
     (let p = ''/'' @ rest;
          language = query_lang lang
      in case findWebsite db domain of
        None \<Rightarrow> (Failed 404 ''Website not found'', [])
      | Some website \<Rightarrow>
          (let trs = getTranslations db (ws_id website) p language;
               target = ''https://'' @ domain @ p
           in case axios_get target of
                Throws e \<Rightarrow> (Failed 500 (''Error loading translated website: '' @ e), [target])
              | Returns doc \<Rightarrow>
                  (case root_assets parse domain
                          (map (map_elements (proxy_anchor parse domain language))
                               (replace_translations trs doc)) of
                     None \<Rightarrow>
                       (Failed 500 ''Error loading translated website: Invalid URL'', [target])
                   | Some doc' \<Rightarrow> (Html doc', [target]))))"

subsection \<open>GET /view/:domain/* of src/server/index.js\<close>

text \<open>
  \<open>$el.html()\<close> serialises the children of an element. src/ pins no version of the
  library; the model follows the current release, whose serialiser for a document loaded
  without \<open>xmlMode\<close> does not look at \<open>decodeEntities\<close>: in text it writes \<open>&amp;\<close>, \<open>&lt;\<close>,
  \<open>&gt;\<close> and \<open>&nbsp;\<close> for the ampersand, the two angle brackets and the no-break space,
  except in the elements whose text is raw (a script or style body, for one); an attribute
  is written \<open>name="value"\<close> with \<open>&amp;\<close>, \<open>&quot;\<close> and \<open>&nbsp;\<close> in the value; a void element has
  no end tag. \<open>$el.html(s)\<close> parses \<open>s\<close>; the parser is the parameter \<open>load_fragment\<close> of the
  passes that call it.
\<close>

definition void_tags :: "string list" where
  "void_tags = [''area'', ''base'', ''basefont'', ''bgsound'', ''br'', ''col'', ''embed'',
     ''frame'', ''hr'', ''img'', ''input'', ''keygen'', ''link'', ''meta'', ''param'', ''source'',
     ''track'', ''wbr'']"

definition raw_text_tags :: "string list" where
  "raw_text_tags = [''style'', ''script'', ''xmp'', ''iframe'', ''noembed'', ''noframes'',
     ''plaintext'', ''noscript'']"

definition escape_text :: "string \<Rightarrow> string" where
  "escape_text s =
     concat (map (\<lambda>c. if c = CHR ''&'' then ''&amp;''
                       else if c = CHR ''<'' then ''&lt;''
                       else if c = CHR ''>'' then ''&gt;''
                       else if c = CHR 0xA0 then ''&nbsp;''
                       else [c]) s)"

definition escape_attribute :: "string \<Rightarrow> string" where
  "escape_attribute s =
     concat (map (\<lambda>c. if c = CHR ''&'' then ''&amp;''
                       else if c = CHR 0x22 then ''&quot;''
                       else if c = CHR 0xA0 then ''&nbsp;''
                       else [c]) s)"

definition render_attribute :: "string \<times> string \<Rightarrow> string" where
  "render_attribute kv =
     (case kv of (k, v) \<Rightarrow> '' '' @ k @ ''='' @ [CHR 0x22] @ escape_attribute v @ [CHR 0x22])"

text \<open>\<open>render parent node\<close> serialises a child of an element named \<open>parent\<close>.\<close>

fun render :: "string \<Rightarrow> node \<Rightarrow> string" where
  "render parent (Text d) = (if parent \<in> set raw_text_tags then d else escape_text d)"
| "render parent (Comment c) = ''<!--'' @ c @ ''-->''"
| "render parent (Element n as cs) =
     ''<'' @ n @ concat (map render_attribute as) @ ''>'' @
     (if n \<in> set void_tags then [] else concat (map (render n) cs) @ ''</'' @ n @ ''>'')"

fun inner_html :: "node \<Rightarrow> string" where
  "inner_html (Element n as cs) = concat (map (render n) cs)"
| "inner_html other = []"

text \<open>
  The first passes (lines 404 to 421): every \<open>base\<close> element is removed and a new one is
  put first in \<open>head\<close>; a \<open>href\<close> or \<open>src\<close> that is relative loses its leading slash.
\<close>

definition not_base :: "node \<Rightarrow> bool" where
  "not_base c = (case c of Element m bs ds \<Rightarrow> m \<noteq> ''base'' | _ \<Rightarrow> True)"

fun remove_base :: "node \<Rightarrow> node" where
  "remove_base (Text d) = Text d"
| "remove_base (Comment c) = Comment c"
| "remove_base (Element n as cs) = Element n as (map remove_base (filter not_base cs))"

definition remove_base_all :: "node list \<Rightarrow> node list" where
  "remove_base_all doc = map remove_base (filter not_base doc)"

fun prepend_to_head :: "node list \<Rightarrow> node \<Rightarrow> node" where
  "prepend_to_head new (Text d) = Text d"
| "prepend_to_head new (Comment c) = Comment c"
| "prepend_to_head new (Element n as cs) =
     Element n as ((if n = ''head'' then new else []) @ map (prepend_to_head new) cs)"

fun append_to_head :: "node list \<Rightarrow> node \<Rightarrow> node" where
  "append_to_head new (Text d) = Text d"
| "append_to_head new (Comment c) = Comment c"
| "append_to_head new (Element n as cs) =
     Element n as (map (append_to_head new) cs @ (if n = ''head'' then new else []))"

definition strip_slash :: "string \<Rightarrow> string" where
  "strip_slash s = (if startsWith s ''/'' then drop 1 s else s)"

definition fix_relative_href :: "string \<Rightarrow> attributes \<Rightarrow> attributes" where
  "fix_relative_href n as =
     (case attr as ''href'' of
        None \<Rightarrow> as
      | Some target \<Rightarrow>
          if target \<noteq> [] \<and> \<not> startsWith target ''http'' \<and> \<not> startsWith target ''//'' \<and>
             \<not> startsWith target ''mailto:'' \<and> \<not> startsWith target ''#''
          then set_attr as ''href'' (strip_slash target)
          else as)"

definition fix_relative_src :: "string \<Rightarrow> attributes \<Rightarrow> attributes" where
  "fix_relative_src n as =
     (case attr as ''src'' of
        None \<Rightarrow> as
      | Some src \<Rightarrow>
          if src \<noteq> [] \<and> \<not> startsWith src ''http'' \<and> \<not> startsWith src ''//''
          then set_attr as ''src'' (strip_slash src)
          else as)"

text \<open>
  The style passes (lines 424 to 443) replace every match of a regular expression: after
  \<open>url(\<close> and an optional quote, the longest non-empty run of characters other than the two
  quotes, \<open>h\<close>, \<open>t\<close>, \<open>p\<close> and the closing parenthesis, then an optional quote and the closing
  parenthesis. No other way to match exists, since a shorter run is followed by a character
  of the run. \<open>match_css_url\<close> gives the length of the match and the run.
\<close>

definition css_run_char :: "char \<Rightarrow> bool" where
  "css_run_char c \<longleftrightarrow> c \<notin> set [CHR 0x27, CHR 0x22, CHR ''h'', CHR ''t'', CHR ''p'', CHR '')'']"

definition quote_char :: "char \<Rightarrow> bool" where
  "quote_char c \<longleftrightarrow> c = CHR 0x27 \<or> c = CHR 0x22"

definition match_css_url :: "string \<Rightarrow> (nat \<times> string) option" where
  "match_css_url s =
     (if prefix ''url('' s then
        (let r0 = drop 4 s;
             q1 = length (takeWhile quote_char (take 1 r0));
             r1 = drop q1 r0;
             run = takeWhile css_run_char r1;
             r2 = drop (length run) r1;
             q2 = length (takeWhile quote_char (take 1 r2));
             r3 = drop q2 r2
         in if run \<noteq> [] \<and> prefix '')'' r3
            then Some (4 + q1 + length run + q2 + 1, run)
            else None)
      else None)"

fun css_scan :: "nat \<Rightarrow> string \<Rightarrow> string" where
  "css_scan k [] = []"
| "css_scan (Suc k) (c # cs) = css_scan k cs"
| "css_scan 0 (c # cs) =
     (case match_css_url (c # cs) of
        None \<Rightarrow> c # css_scan 0 cs
      | Some (len, p1) \<Rightarrow>
          (if startsWith p1 ''data:'' then take len (c # cs)
           else ''url('' @ [CHR 0x27] @ strip_slash p1 @ [CHR 0x27] @ '')'')
            @ css_scan (len - 1) cs)"

definition fix_css_urls :: "string \<Rightarrow> string" where
  "fix_css_urls css = css_scan 0 css"

definition fix_inline_style :: "string \<Rightarrow> attributes \<Rightarrow> attributes" where
  "fix_inline_style n as =
     (case attr as ''style'' of
        None \<Rightarrow> as
      | Some style \<Rightarrow> if style = [] then as else set_attr as ''style'' (fix_css_urls style))"

fun fix_style_tags :: "(string \<Rightarrow> node list) \<Rightarrow> node \<Rightarrow> node" where
  "fix_style_tags load_fragment (Text d) = Text d"
| "fix_style_tags load_fragment (Comment c) = Comment c"
| "fix_style_tags load_fragment (Element n as cs) =
     (if n = ''style''
      then Element n as (load_fragment (fix_css_urls (inner_html (Element n as cs))))
      else Element n as (map (fix_style_tags load_fragment) cs))"

text \<open>
  The translation pass (lines 446 to 469): the translation is looked up by the trimmed
  text of the whole element, and its first occurrence in the serialised children is
  replaced. \<open>translated_html\<close> is the string handed to \<open>$el.html\<close>.
\<close>

definition translated_html :: "database \<Rightarrow> string \<Rightarrow> string \<Rightarrow> node \<Rightarrow> string option" where
  "translated_html db domain lang el =
     (let originalText = trim (cheerio_text el) in
      if originalText = [] then None
      else
        (case getTranslation db domain originalText lang of
           Some (Some t) \<Rightarrow>
             if t = [] then None else Some (js_replace (inner_html el) originalText t)
         | _ \<Rightarrow> None))"

definition view_sub_rewrite ::
  "(string \<Rightarrow> node list) \<Rightarrow> database \<Rightarrow> string \<Rightarrow> string \<Rightarrow> string \<Rightarrow> node list \<Rightarrow> node list" where
  "view_sub_rewrite load_fragment db domain scheme lang doc =
     (let d1 = map (prepend_to_head [Element ''base'' [(''href'', scheme @ ''//'' @ domain @ ''/'')] []])
                   (remove_base_all doc);
          d2 = map (map_elements fix_relative_href) d1;
          d3 = map (map_elements fix_relative_src) d2;
          d4 = map (map_elements fix_inline_style) d3;
          d5 = map (fix_style_tags load_fragment) d4
      in replace_children_pass
           (\<lambda>el. map_option load_fragment (translated_html db domain lang el)) text_tags d5)"

definition view_sub ::
  "(string \<Rightarrow> node list) \<Rightarrow> database \<Rightarrow> fetcher \<Rightarrow> string \<Rightarrow> string \<Rightarrow> string option \<Rightarrow> view_outcome" where
  "view_sub load_fragment db axios_get domain rest lang =
     (let language = query_lang lang in
      case getWebsiteByDomain db domain of
        None \<Rightarrow> (Failed 500 (''Error: '' @ ''Website not found: '' @ domain), [])
      | Some website \<Rightarrow>
          (let scheme = (if js_includes domain ''localhost'' then ''http:'' else ''https:'');
               originalUrl = scheme @ ''//'' @ domain @ ''/'' @ rest
           in case axios_get originalUrl of
                Throws e \<Rightarrow> (Failed 500 (''Error: '' @ e), [originalUrl])
              | Returns doc \<Rightarrow>
                  (Html (view_sub_rewrite load_fragment db domain scheme language doc),
                   [originalUrl])))"

subsection \<open>serveTranslatedWebsite\<close>

text \<open>
  The common function of lines 116 to 248. The children of \<open>body\<close> are wrapped in a
  \<open>div\<close>, copies of the style elements and style sheet links are put first in every element
  of the wrapper's class (each \<open>prepend\<close> goes to the front, so the last copy comes first),
  and a style element and three meta elements are added to \<open>head\<close>. (The white space of the
  two template literals is not reproduced.)
\<close>

definition wrapper_class :: string where
  "wrapper_class = ''website-translation-wrapper''"

definition is_style :: "string \<times> attributes \<times> node list \<Rightarrow> bool" where
  "is_style e =
     (case e of (n, as, cs) \<Rightarrow>
        n = ''style'' \<or> (n = ''link'' \<and> attr as ''rel'' = Some ''stylesheet''))"

definition original_styles :: "node list \<Rightarrow> node list" where
  "original_styles doc =
     map (\<lambda>(n, as, cs). Element n as cs) (filter is_style (concat (map elements_of doc)))"

fun wrap_body :: "node \<Rightarrow> node" where
  "wrap_body (Text d) = Text d"
| "wrap_body (Comment c) = Comment c"
| "wrap_body (Element n as cs) =
     (if n = ''body''
      then Element n as [Element ''div'' [(''class'', wrapper_class)] (map wrap_body cs)]
      else Element n as (map wrap_body cs))"

fun split_spaces :: "string \<Rightarrow> string \<Rightarrow> string list" where
  "split_spaces word [] = (if word = [] then [] else [word])"
| "split_spaces word (c # cs) =
     (if js_space c then (if word = [] then [] else [word]) @ split_spaces [] cs
      else split_spaces (word @ [c]) cs)"

definition has_class :: "string \<Rightarrow> attributes \<Rightarrow> bool" where
  "has_class cls as \<longleftrightarrow>
     (case attr as ''class'' of None \<Rightarrow> False | Some v \<Rightarrow> cls \<in> set (split_spaces [] v))"

fun prepend_styles :: "node list \<Rightarrow> node \<Rightarrow> node" where
  "prepend_styles styles (Text d) = Text d"
| "prepend_styles styles (Comment c) = Comment c"
| "prepend_styles styles (Element n as cs) =
     Element n as ((if has_class wrapper_class as then rev styles else [])
                     @ map (prepend_styles styles) cs)"

definition wrapper_style :: "node list" where
  "wrapper_style =
     [Element ''style'' []
        [Text ''.website-translation-wrapper { all: inherit; display: contents; }'']]"

definition meta_tags :: "string \<Rightarrow> node list" where
  "meta_tags baseUrl =
     [Element ''meta'' [(''charset'', ''UTF-8'')] [],
      Element ''base'' [(''href'', baseUrl @ ''/'')] [],
      Element ''meta'' [(''name'', ''viewport''),
                        (''content'', ''width=device-width, initial-scale=1.0'')] []]"

definition serve_rewrite ::
  "url_parser \<Rightarrow> string \<Rightarrow> string \<Rightarrow> translation_row list \<Rightarrow> node list \<Rightarrow> node list" where
  "serve_rewrite parse domain lang trs doc =
     (let baseUrl = ''https://'' @ domain;
          styles = original_styles doc;
          d1 = map (prepend_styles styles) (map wrap_body doc);
          d2 = replace_translations trs d1;
          d3 = map (map_elements (proxy_anchor_serve parse domain lang)) d2;
          d4 = map (append_to_head wrapper_style) d3;
          d5 = serve_assets parse baseUrl d4
      in map (prepend_to_head (meta_tags baseUrl)) d5)"

definition serveTranslatedWebsite ::
  "url_parser \<Rightarrow> database \<Rightarrow> fetcher \<Rightarrow> string \<Rightarrow> string \<Rightarrow> string \<Rightarrow> view_outcome" where
  "serveTranslatedWebsite parse db axios_get domain p lang =
     (let baseUrl = ''https://'' @ domain;
          pageUrl = baseUrl @ p
      in case findWebsite db domain of
           None \<Rightarrow> (Failed 404 ''Website not found'', [])
         | Some website \<Rightarrow>
             (case axios_get pageUrl of
                Throws e \<Rightarrow> (Failed 500 (''Error loading translated website: '' @ e), [pageUrl])
              | Returns doc \<Rightarrow>
                  (Html (serve_rewrite parse domain lang
                           (getTranslations db (ws_id website) p lang) doc),
                   [pageUrl])))"

section \<open>POST /api/map-website\<close>

text \<open>
  The handler (src/server/index.js, lines 533 to 603) around the crawl loop. A page is
  scanned by fetching \<open>baseUrl + currentPath\<close>; its title is the text of the \<open>title\<close>
  elements, or the path when that is empty; its text count is the length of the trimmed
  text of the extractable elements.
\<close>

definition selection_text :: "string list \<Rightarrow> node list \<Rightarrow> string" where
  "selection_text names doc =
     concat (map (\<lambda>(n, as, cs). cheerio_text (Element n as cs)) (select_elements names doc))"

definition scan_page :: "url_parser \<Rightarrow> fetcher \<Rightarrow> string \<Rightarrow> page_scan" where
  "scan_page parse axios_get baseUrl currentPath =
     (case axios_get (baseUrl @ currentPath) of
        Throws e \<Rightarrow> None
      | Returns html \<Rightarrow>
          Some (if selection_text [''title''] html = [] then currentPath
                else selection_text [''title''] html,
                length (trim (selection_text text_tags html)),
                getPageLinks parse html baseUrl))"

datatype map_response = Pages string "page_info list" nat | MapFailed nat string

definition map_website :: "url_parser \<Rightarrow> fetcher \<Rightarrow> string option \<Rightarrow> map_response" where
  "map_website parse axios_get target =
     (case target of
        None \<Rightarrow> MapFailed 400 ''URL is required''
      | Some address \<Rightarrow>
          if address = [] then MapFailed 400 ''URL is required''
          else
            (case parse address None of
               None \<Rightarrow> MapFailed 500 ''Invalid URL''
             | Some parsedUrl \<Rightarrow>
                 (let domain = hostname parsedUrl;
                      baseUrl = protocol parsedUrl @ ''//'' @ domain;
                      final = crawl_loop (scan_page parse axios_get baseUrl)
                                (crawl_init (pathname parsedUrl))
                  in Pages domain (foundPages final) (length (foundPages final)))))"

section \<open>What an answer shows of the language\<close>










section \<open>Properties of the containers\<close>

lemma set_add_set: "set (set_add s x) = insert x (set s)"
  by (auto simp: set_add_def)

lemma set_add_distinct: "distinct s \<Longrightarrow> distinct (set_add s x)"
  by (auto simp: set_add_def)

section \<open>Properties of the link discoverer\<close>

















section \<open>Properties of the translation client and of translate-website\<close>

lemma translateText_returns: "\<exists>v. translateText post txt targetLanguage = Returns v"
  by (simp add: translateText_def split: js_result.splits)

lemma translateText_after_throw:
  "translateText_try post txt targetLanguage = Throws e \<Longrightarrow>
   translateText post txt targetLanguage = Returns (JString txt)"
  by (simp add: translateText_def)

lemma translateText_rejected:
  "post txt targetLanguage = Rejected e \<Longrightarrow>
   translateText post txt targetLanguage = Returns (JString txt)"
  by (simp add: translateText_def translateText_try_def)

lemma translateText_no_data:
  "post txt targetLanguage = Resolved NoData \<Longrightarrow>
   translateText post txt targetLanguage = Returns (JString txt)"
  by (simp add: translateText_def translateText_try_def)

lemma translateText_backend_down:
  "translateText backend_down ''Hello'' ''es'' = Returns (JString ''Hello'')"
  by (simp add: translateText_rejected backend_down_def)

text \<open>
  Claim C4. \<open>translateText\<close> never throws, and it returns the input text when the request
  rejects or the response carries no data. A malformed response is not covered: when the
  backend answers 200 with the body \<open>{}\<close>, reading \<open>translatedText\<close> throws nothing, and the
  function returns undefined where the claim promises the input text.
\<close>

theorem translateText_malformed_response:
  "translateText backend_empty_object ''Hello'' ''es'' = Returns JUndefined \<and>
   translateText backend_empty_object ''Hello'' ''es'' \<noteq> Returns (JString ''Hello'')"
  by (simp add: translateText_def translateText_try_def backend_empty_object_def)

lemma translateText_text:
  "text_outcome (post txt lang) \<Longrightarrow>
   \<exists>v s. translateText post txt lang = Returns v \<and> bind_text v = Returns (Some s)"
  by (auto simp: text_outcome_def translateText_def translateText_try_def
      split: axios_outcome.splits response_data.splits js_value.splits)

lemma translate_items_texts:
  assumes ok: "\<And>k q. text_outcome (post k q lang)"
  shows "\<exists>db'. translate_items post k lang items db = (Returns db', db') \<and>
           list_all2 (translated_rows (row_id ` set items))
             (tbl_translations db) (tbl_translations db')"
proof (induction items arbitrary: db k)
  case Nil
  have "list_all2 (translated_rows {}) (tbl_translations db) (tbl_translations db)"
    by (simp add: list_all2_same translated_rows_def)
  then show ?case by simp
next
  case (Cons item items)
  obtain v s where s: "translateText (post k) (original_text item) lang = Returns v"
    "bind_text v = Returns (Some s)"
    using translateText_text [of "post k" "original_text item" lang] ok by blast
  let ?g = "\<lambda>r. if row_id r = row_id item then r\<lparr>translated_text := Some s, language := lang\<rparr> else r"
  let ?db1 = "updateTranslation db (Some s) lang (row_id item)"
  have rows1: "tbl_translations ?db1 = map ?g (tbl_translations db)"
    by (simp add: updateTranslation_def)
  obtain db' where d: "translate_items post (Suc k) lang items ?db1 = (Returns db', db')"
    "list_all2 (translated_rows (row_id ` set items)) (tbl_translations ?db1) (tbl_translations db')"
    using Cons.IH [of "Suc k" ?db1] by blast
  have "list_all2 (\<lambda>r r'. translated_rows (row_id ` set items) (?g r) r')
          (tbl_translations db) (tbl_translations db')"
    using d(2) unfolding rows1 by (simp add: list_all2_map1)
  then have "list_all2 (translated_rows (row_id ` set (item # items)))
          (tbl_translations db) (tbl_translations db')"
  proof (rule list_all2_mono)
    fix r r'
    assume "translated_rows (row_id ` set items) (?g r) r'"
    then show "translated_rows (row_id ` set (item # items)) r r'"
      by (auto simp: translated_rows_def split: if_splits)
  qed
  then show ?case
    using s d(1) by auto
qed

text \<open>
  When every backend outcome leads to a stored text, the run answers 200 and leaves no
  untranslated fragment for the site.
\<close>

lemma translate_website_persists:
  assumes ok: "\<And>k q. text_outcome (post k q lang)"
  shows "status (fst (translate_website post wid lang db)) = 200 \<and>
         findUntranslated (snd (translate_website post wid lang db)) wid = []"
proof -
  let ?items = "findUntranslated db wid"
  obtain db' where d: "translate_items post 0 lang ?items db = (Returns db', db')"
    "list_all2 (translated_rows (row_id ` set ?items)) (tbl_translations db) (tbl_translations db')"
    using translate_items_texts [of post lang 0 ?items db] ok by blast
  have res: "translate_website post wid lang db
      = (\<lparr>status = 200, message = ''Website translated successfully''\<rparr>, db')"
    using d(1) by (simp add: translate_website_def)
  have "\<not> (website_id r' = wid \<and> translated_text r' = None)" if mem: "r' \<in> set (tbl_translations db')" for r'
  proof
    assume a: "website_id r' = wid \<and> translated_text r' = None"
    have len: "length (tbl_translations db) = length (tbl_translations db')"
      using d(2) by (rule list_all2_lengthD)
    obtain r where z: "(r, r') \<in> set (zip (tbl_translations db) (tbl_translations db'))"
      using in_set_impl_in_set_zip2 [OF len mem] by blast
    have r: "r \<in> set (tbl_translations db)" "translated_rows (row_id ` set ?items) r r'"
      using z d(2) by (auto simp: list_all2_iff dest: set_zip_leftD)
    show False
    proof (cases "row_id r \<in> row_id ` set ?items")
      case True
      then show False using r(2) a by (simp add: translated_rows_def)
    next
      case False
      then have "r' = r" using r(2) by (simp add: translated_rows_def)
      then have "r \<in> set ?items"
        using r(1) a by (simp add: findUntranslated_def)
      then show False using False by blast
    qed
  qed
  then have "findUntranslated db' wid = []"
    by (auto simp: findUntranslated_def filter_empty_conv)
  then show ?thesis by (simp add: res)
qed

text \<open>When the backend is down, the original text is stored as the translation.\<close>

lemma translate_website_backend_down:
  "translate_website (\<lambda>k. backend_down) 1 ''es'' sample_db =
     (\<lparr>status = 200, message = ''Website translated successfully''\<rparr>,
      \<lparr>tbl_websites = [\<lparr>ws_id = 1, ws_domain = ''example.com''\<rparr>],
       tbl_translations =
         [\<lparr>row_id = 1, website_id = 1, original_text = ''Hello'',
           translated_text = Some ''Hello'', language = ''es'', row_path = ''/'',
           element_type = ''p''\<rparr>]\<rparr>)"
  by (simp add: translate_website_def findUntranslated_def sample_db_def translateText_def
      translateText_try_def backend_down_def updateTranslation_def)

text \<open>
  Claim C8. When every backend call fails, the run stores the original text as the
  translation and a later \<open>findUntranslated\<close> is empty (\<open>translate_website_persists\<close>,
  \<open>translate_website_backend_down\<close>). When the backend answers 200 with
  \<open>translatedText\<close> null, the run completes with status 200, the row keeps a null
  translation under the new language, and \<open>findUntranslated\<close> returns it again.
\<close>

theorem translate_website_null_translation:
  "translate_website (\<lambda>k. backend_null_text) 1 ''es'' sample_db =
     (\<lparr>status = 200, message = ''Website translated successfully''\<rparr>,
      \<lparr>tbl_websites = [\<lparr>ws_id = 1, ws_domain = ''example.com''\<rparr>],
       tbl_translations =
         [\<lparr>row_id = 1, website_id = 1, original_text = ''Hello'',
           translated_text = None, language = ''es'', row_path = ''/'',
           element_type = ''p''\<rparr>]\<rparr>) \<and>
   findUntranslated (snd (translate_website (\<lambda>k. backend_null_text) 1 ''es'' sample_db)) 1 =
     [\<lparr>row_id = 1, website_id = 1, original_text = ''Hello'', translated_text = None,
       language = ''es'', row_path = ''/'', element_type = ''p''\<rparr>]"
  by (simp add: translate_website_def findUntranslated_def sample_db_def translateText_def
      translateText_try_def backend_null_text_def updateTranslation_def)


text \<open>
  The same happens when the body of the answer has no \<open>translatedText\<close>: the store binds
  undefined as NULL.
\<close>

lemma translate_website_missing_translation:
  "translate_website (\<lambda>k. backend_empty_object) 1 ''es'' sample_db =
     (\<lparr>status = 200, message = ''Website translated successfully''\<rparr>,
      \<lparr>tbl_websites = [\<lparr>ws_id = 1, ws_domain = ''example.com''\<rparr>],
       tbl_translations =
         [\<lparr>row_id = 1, website_id = 1, original_text = ''Hello'',
           translated_text = None, language = ''es'', row_path = ''/'',
           element_type = ''p''\<rparr>]\<rparr>)"
  by (simp add: translate_website_def findUntranslated_def sample_db_def translateText_def
      translateText_try_def backend_empty_object_def updateTranslation_def)
section \<open>Properties of the crawl\<close>

lemma enqueue_links_set: "set (enqueue_links v q ls) = set q \<union> (set ls - set v)"
  unfolding enqueue_links_def
  by (induction ls arbitrary: q) (auto simp: set_add_set)

lemma enqueue_links_distinct: "distinct q \<Longrightarrow> distinct (enqueue_links v q ls)"
  unfolding enqueue_links_def
  by (induction ls arbitrary: q) (auto simp: set_add_distinct)

lemma reachable_seed: "seed \<in> reachable scan seed"
  by (simp add: reachable_def)

lemma reachable_step:
  "p \<in> reachable scan seed \<Longrightarrow> q \<in> set (links_of scan p) \<Longrightarrow> q \<in> reachable scan seed"
  unfolding reachable_def link_edges_def by (auto intro: rtrancl_into_rtrancl)

lemma reachable_closed:
  assumes "seed \<in> S" and "\<forall>v \<in> S. set (links_of scan v) \<subseteq> S"
  shows "reachable scan seed \<subseteq> S"
proof
  fix q assume "q \<in> reachable scan seed"
  then have "(seed, q) \<in> (link_edges scan)\<^sup>*"
    by (simp add: reachable_def)
  then show "q \<in> S"
    using assms by (induction rule: rtrancl_induct) (auto simp: link_edges_def)
qed

lemma crawl_inv_init: "crawl_inv scan seed (crawl_init seed)"
  by (simp add: crawl_inv_def crawl_init_def reachable_seed)

lemma crawl_inv_step:
  assumes inv: "crawl_inv scan seed st" and c: "crawl_continues st"
  shows "crawl_inv scan seed (crawl_step scan st)"
proof -
  obtain p ps where q: "pagesQueue st = p # ps"
    using c by (cases "pagesQueue st") (auto simp: crawl_continues_def)
  have fresh: "p \<notin> set (visitedPages st)" and pps: "p \<notin> set ps" and dps: "distinct ps"
    and dv: "distinct (visitedPages st)" and disj: "set ps \<inter> set (visitedPages st) = {}"
    using inv q by (auto simp: crawl_inv_def)
  have del: "set_delete (pagesQueue st) p = ps"
    using q pps by (simp add: set_delete_def)
  have add: "set_add (visitedPages st) p = visitedPages st @ [p]"
    using fresh by (simp add: set_add_def)
  have lt: "length (visitedPages st) < maxPages"
    using c by (simp add: crawl_continues_def)
  have pr: "p \<in> reachable scan seed"
    using inv q by (auto simp: crawl_inv_def)
  show ?thesis
  proof (cases "scan p")
    case None
    then have st': "crawl_step scan st =
        st\<lparr>pagesQueue := ps, visitedPages := visitedPages st @ [p],
           requested := requested st @ [p]\<rparr>"
      using q fresh del add by (simp add: crawl_step_def Let_def)
    have l: "links_of scan p = []" using None by (simp add: links_of_def)
    have i: "distinct ps" "distinct (visitedPages st @ [p])"
      "set ps \<inter> set (visitedPages st @ [p]) = {}"
      "set (visitedPages st @ [p]) \<union> set ps \<subseteq> reachable scan seed"
      "seed \<in> set (visitedPages st @ [p]) \<union> set ps"
      using inv q fresh pps dps by (auto simp: crawl_inv_def)
    have cl: "\<forall>v \<in> set (visitedPages st @ [p]).
        set (links_of scan v) \<subseteq> set (visitedPages st @ [p]) \<union> set ps"
      using inv q l by (auto simp: crawl_inv_def)
    have rq: "requested st @ [p] = visitedPages st @ [p]"
      using inv by (simp add: crawl_inv_def)
    have fp: "map path (foundPages st) = filter (\<lambda>p. scan p \<noteq> None) (visitedPages st @ [p])"
      using inv None by (simp add: crawl_inv_def)
    show ?thesis
      unfolding st' crawl_inv_def using i cl rq fp lt by simp
  next
    case (Some r)
    then obtain t n links where r: "scan p = Some (t, n, links)"
      by (cases r) auto
    then have st': "crawl_step scan st =
        st\<lparr>pagesQueue := enqueue_links (visitedPages st @ [p]) ps links,
           visitedPages := visitedPages st @ [p],
           foundPages := foundPages st @ [\<lparr>path = p, title = t, textCount = n\<rparr>],
           requested := requested st @ [p]\<rparr>"
      using q fresh del add by (simp add: crawl_step_def Let_def)
    have l: "links_of scan p = links" using r by (simp add: links_of_def)
    have lr: "set links \<subseteq> reachable scan seed"
      using pr l reachable_step by blast
    define Q where "Q = enqueue_links (visitedPages st @ [p]) ps links"
    have Qs: "set Q = set ps \<union> (set links - set (visitedPages st @ [p]))"
      by (simp add: Q_def enqueue_links_set)
    have i: "distinct Q" "distinct (visitedPages st @ [p])"
      using dps dv fresh by (simp_all add: Q_def enqueue_links_distinct)
    have i2: "set Q \<inter> set (visitedPages st @ [p]) = {}"
      using disj pps unfolding Qs by auto
    have i3: "set (visitedPages st @ [p]) \<union> set Q \<subseteq> reachable scan seed"
      using inv q lr pr unfolding Qs by (auto simp: crawl_inv_def)
    have i4: "seed \<in> set (visitedPages st @ [p]) \<union> set Q"
      using inv q unfolding Qs by (auto simp: crawl_inv_def)
    have cl0: "\<forall>v \<in> set (visitedPages st).
        set (links_of scan v) \<subseteq> set (visitedPages st) \<union> set (p # ps)"
      using inv q by (simp add: crawl_inv_def)
    have cl: "\<forall>v \<in> set (visitedPages st @ [p]).
        set (links_of scan v) \<subseteq> set (visitedPages st @ [p]) \<union> set Q"
      using cl0 l unfolding Qs by auto
    have rq: "requested st @ [p] = visitedPages st @ [p]"
      using inv by (simp add: crawl_inv_def)
    have fp: "map path (foundPages st @ [\<lparr>path = p, title = t, textCount = n\<rparr>])
        = filter (\<lambda>p. scan p \<noteq> None) (visitedPages st @ [p])"
      using inv r by (simp add: crawl_inv_def)
    show ?thesis
      unfolding st' crawl_inv_def Q_def [symmetric] using i i2 i3 i4 cl rq fp lt by simp
  qed
qed

lemma crawl_loop_inv:
  "crawl_inv scan seed st \<Longrightarrow>
   crawl_inv scan seed (crawl_loop scan st) \<and> \<not> crawl_continues (crawl_loop scan st)"
proof (induction scan st rule: crawl_loop.induct)
  case (1 scan st)
  show ?case
  proof (cases "crawl_continues st")
    case True
    then show ?thesis
      using 1 crawl_inv_step [of scan seed st] by (subst (1 2) crawl_loop.simps) simp
  next
    case False
    then show ?thesis
      using 1 by (subst (1 2) crawl_loop.simps) simp
  qed
qed

text \<open>
  Claim C1. For a link graph in which finitely many paths are reachable from the seed, the
  crawl with the page cap 20 requests no path twice, every requested path is in the visited
  set, the loop ends with an empty frontier or with the visited count at the cap, the
  visited set has exactly min(20, M) elements for M reachable paths, and the returned pages
  are the visited paths whose fetch succeeded, in visiting order: a path whose fetch failed
  is visited and is not among the returned pages. Termination is the totality of
  \<open>crawl_loop\<close>, whose measure is the pair (cap minus visited count, frontier size).
\<close>

theorem crawl_visits_min_cap:
  assumes fin: "finite (reachable scan seed)"
  shows "distinct (requested (crawl_loop scan (crawl_init seed))) \<and>
         requested (crawl_loop scan (crawl_init seed))
           = visitedPages (crawl_loop scan (crawl_init seed)) \<and>
         (pagesQueue (crawl_loop scan (crawl_init seed)) = [] \<or>
          length (visitedPages (crawl_loop scan (crawl_init seed))) = maxPages) \<and>
         card (set (visitedPages (crawl_loop scan (crawl_init seed))))
           = min maxPages (card (reachable scan seed)) \<and>
         map path (foundPages (crawl_loop scan (crawl_init seed)))
           = filter (\<lambda>p. scan p \<noteq> None) (visitedPages (crawl_loop scan (crawl_init seed)))"
proof -
  define r where "r = crawl_loop scan (crawl_init seed)"
  have inv: "crawl_inv scan seed r" and stop: "\<not> crawl_continues r"
    using crawl_loop_inv [OF crawl_inv_init, of scan seed] by (simp_all add: r_def)
  have dv: "distinct (visitedPages r)" and rq: "requested r = visitedPages r"
    and sub: "set (visitedPages r) \<subseteq> reachable scan seed"
    and le: "length (visitedPages r) \<le> maxPages"
    and fp: "map path (foundPages r) = filter (\<lambda>p. scan p \<noteq> None) (visitedPages r)"
    using inv by (auto simp: crawl_inv_def)
  have exit: "pagesQueue r = [] \<or> length (visitedPages r) = maxPages"
    using stop le by (auto simp: crawl_continues_def)
  have cardv: "card (set (visitedPages r)) = length (visitedPages r)"
    using dv by (simp add: distinct_card)
  have "card (set (visitedPages r)) = min maxPages (card (reachable scan seed))"
  proof (cases "pagesQueue r = []")
    case True
    then have "reachable scan seed \<subseteq> set (visitedPages r)"
      using inv by (intro reachable_closed) (auto simp: crawl_inv_def)
    then have "set (visitedPages r) = reachable scan seed"
      using sub by auto
    then show ?thesis using cardv le by (simp add: min_def)
  next
    case False
    then have "length (visitedPages r) = maxPages" using exit by simp
    moreover have "card (set (visitedPages r)) \<le> card (reachable scan seed)"
      using sub fin by (simp add: card_mono)
    ultimately show ?thesis using cardv by (simp add: min_def)
  qed
  then show ?thesis
    using dv rq exit fp unfolding r_def by simp
qed

lemma sample_reachable: "reachable sample_scan ''/'' = {''/'', ''/a'', ''/b'', ''/c''}"
proof
  show "reachable sample_scan ''/'' \<subseteq> {''/'', ''/a'', ''/b'', ''/c''}"
    by (rule reachable_closed) (auto simp: links_of_def sample_scan_def)
next
  have "''/'' \<in> reachable sample_scan ''/''"
    by (rule reachable_seed)
  moreover have "set (links_of sample_scan ''/'') = {''/a'', ''/b'', ''/c''}"
    by (simp add: links_of_def sample_scan_def)
  ultimately show "{''/'', ''/a'', ''/b'', ''/c''} \<subseteq> reachable sample_scan ''/''"
    using reachable_step [of "''/''" sample_scan "''/''"] by auto
qed

lemma sample_crawl:
  "crawl_loop sample_scan (crawl_init ''/'') =
     \<lparr>pagesQueue = [], visitedPages = [''/'', ''/a'', ''/b'', ''/c''],
      foundPages = [\<lparr>path = ''/'', title = ''Home'', textCount = 12\<rparr>,
                    \<lparr>path = ''/a'', title = ''A'', textCount = 5\<rparr>,
                    \<lparr>path = ''/b'', title = ''/b'', textCount = 7\<rparr>],
      requested = [''/'', ''/a'', ''/b'', ''/c'']\<rparr>"
  by code_simp

theorem crawl_visits_min_cap_witness:
  "finite (reachable sample_scan ''/'') \<and>
   card (reachable sample_scan ''/'') = 4 \<and>
   visitedPages (crawl_loop sample_scan (crawl_init ''/'')) = [''/'', ''/a'', ''/b'', ''/c''] \<and>
   card (set (visitedPages (crawl_loop sample_scan (crawl_init ''/''))))
     = min maxPages (card (reachable sample_scan ''/'')) \<and>
   map path (foundPages (crawl_loop sample_scan (crawl_init ''/''))) = [''/'', ''/a'', ''/b'']"
proof -
  have fin: "finite (reachable sample_scan ''/'')"
    by (simp add: sample_reachable)
  have c4: "card (reachable sample_scan ''/'') = 4"
    by (simp add: sample_reachable)
  show ?thesis
    using crawl_visits_min_cap [OF fin] fin c4 by (simp add: sample_crawl)
qed


lemma enqueue_links_append:
  "\<exists>new. enqueue_links v q ls = q @ new \<and> set new \<subseteq> set ls - set v - set q \<and> distinct new"
  unfolding enqueue_links_def
proof (induction ls arbitrary: q)
  case Nil
  then show ?case by simp
next
  case (Cons l ls)
  show ?case
  proof (cases "l \<notin> set v \<and> l \<notin> set q")
    case True
    obtain new where n: "foldl (\<lambda>q link. if link \<notin> set v then set_add q link else q) (q @ [l]) ls
        = (q @ [l]) @ new" "set new \<subseteq> set ls - set v - set (q @ [l])" "distinct new"
      using Cons.IH [of "q @ [l]"] by blast
    have "foldl (\<lambda>q link. if link \<notin> set v then set_add q link else q) q (l # ls)
        = q @ (l # new)"
      using True n(1) by (simp add: set_add_def)
    moreover have "set (l # new) \<subseteq> set (l # ls) - set v - set q"
      using True n(2) by auto
    moreover have "distinct (l # new)"
      using n(2,3) by auto
    ultimately show ?thesis by blast
  next
    case False
    obtain new where n: "foldl (\<lambda>q link. if link \<notin> set v then set_add q link else q) q ls
        = q @ new" "set new \<subseteq> set ls - set v - set q" "distinct new"
      using Cons.IH [of q] by blast
    have "foldl (\<lambda>q link. if link \<notin> set v then set_add q link else q) q (l # ls) = q @ new"
      using False n(1) by (auto simp: set_add_def)
    moreover have "set new \<subseteq> set (l # ls) - set v - set q"
      using n(2) by auto
    ultimately show ?thesis using n(3) by blast
  qed
qed

lemma crawl_step_shape:
  assumes c: "crawl_continues st" and d: "distinct (pagesQueue st)"
    and disj: "set (pagesQueue st) \<inter> set (visitedPages st) = {}"
  shows "\<exists>new. visitedPages (crawl_step scan st) = visitedPages st @ [hd (pagesQueue st)] \<and>
           pagesQueue (crawl_step scan st) = tl (pagesQueue st) @ new \<and>
           set new \<subseteq> set (links_of scan (hd (pagesQueue st)))
                      - set (visitedPages st) - set (pagesQueue st) \<and>
           distinct new"
proof -
  obtain p ps where q: "pagesQueue st = p # ps"
    using c by (cases "pagesQueue st") (auto simp: crawl_continues_def)
  have fresh: "p \<notin> set (visitedPages st)" and pps: "p \<notin> set ps"
    using d disj q by auto
  have del: "set_delete (pagesQueue st) p = ps"
    using q pps by (simp add: set_delete_def)
  have add: "set_add (visitedPages st) p = visitedPages st @ [p]"
    using fresh by (simp add: set_add_def)
  show ?thesis
  proof (cases "scan p")
    case None
    then show ?thesis
      using q fresh del add by (simp add: crawl_step_def Let_def)
  next
    case (Some r)
    then obtain t n links where r: "scan p = Some (t, n, links)"
      by (cases r) auto
    obtain new where n: "enqueue_links (visitedPages st @ [p]) ps links = ps @ new"
      "set new \<subseteq> set links - set (visitedPages st @ [p]) - set ps" "distinct new"
      using enqueue_links_append by blast
    have l: "links_of scan p = links" using r by (simp add: links_of_def)
    have "visitedPages (crawl_step scan st) = visitedPages st @ [p]"
      "pagesQueue (crawl_step scan st) = ps @ new"
      using q fresh del add r n(1) by (simp_all add: crawl_step_def Let_def)
    moreover have "set new \<subseteq> set links - set (visitedPages st) - set (p # ps)"
      using n(2) by auto
    ultimately show ?thesis using q l n(3) by auto
  qed
qed

lemma crawl_loop_fifo:
  "distinct (pagesQueue st) \<Longrightarrow> set (pagesQueue st) \<inter> set (visitedPages st) = {} \<Longrightarrow>
   prefix (visitedPages st @ take (maxPages - length (visitedPages st)) (pagesQueue st))
          (visitedPages (crawl_loop scan st))"
proof (induction scan st rule: crawl_loop.induct)
  case (1 scan st)
  show ?case
  proof (cases "crawl_continues st")
    case False
    then have "take (maxPages - length (visitedPages st)) (pagesQueue st) = []"
      by (auto simp: crawl_continues_def)
    then show ?thesis
      using False by (subst crawl_loop.simps) simp
  next
    case True
    obtain p ps where q: "pagesQueue st = p # ps"
      using True by (cases "pagesQueue st") (auto simp: crawl_continues_def)
    obtain new where s: "visitedPages (crawl_step scan st) = visitedPages st @ [p]"
      "pagesQueue (crawl_step scan st) = ps @ new"
      "set new \<subseteq> set (links_of scan p) - set (visitedPages st) - set (p # ps)"
      "distinct new"
      using crawl_step_shape [OF True "1.prems", of scan] q by auto
    have d': "distinct (pagesQueue (crawl_step scan st))"
      using s "1.prems" q by auto
    have disj': "set (pagesQueue (crawl_step scan st)) \<inter> set (visitedPages (crawl_step scan st)) = {}"
      using s "1.prems" q by auto
    have ih: "prefix (visitedPages st @ [p] @ take (maxPages - Suc (length (visitedPages st))) (ps @ new))
                (visitedPages (crawl_loop scan (crawl_step scan st)))"
      using "1.IH" [OF True d' disj'] s by simp
    have lt: "length (visitedPages st) < maxPages"
      using True by (simp add: crawl_continues_def)
    then obtain k where k: "maxPages - length (visitedPages st) = Suc k"
      by (cases "maxPages - length (visitedPages st)") auto
    then have k': "maxPages - Suc (length (visitedPages st)) = k" by simp
    have "prefix (take k ps) (take k (ps @ new))"
      by (simp add: prefix_def)
    then have b: "prefix (visitedPages st @ take (Suc k) (p # ps))
                 (visitedPages st @ [p] @ take k (ps @ new))"
      by simp
    have a: "prefix (visitedPages st @ [p] @ take k (ps @ new))
                (visitedPages (crawl_loop scan (crawl_step scan st)))"
      using ih unfolding k' .
    have eq: "crawl_loop scan st = crawl_loop scan (crawl_step scan st)"
      using True by (subst crawl_loop.simps) simp
    have "prefix (visitedPages st @ take (Suc k) (p # ps))
            (visitedPages (crawl_loop scan (crawl_step scan st)))"
      using b a by (rule prefix_order.trans)
    then show ?thesis
      unfolding eq q k .
  qed
qed


lemma reachable_relpow: "q \<in> reachable scan seed \<longleftrightarrow> (\<exists>n. (seed, q) \<in> link_edges scan ^^ n)"
  by (simp add: reachable_def rtrancl_power)

lemma distance_relpow:
  "q \<in> reachable scan seed \<Longrightarrow> (seed, q) \<in> link_edges scan ^^ link_distance scan seed q"
  unfolding link_distance_def reachable_relpow by (rule LeastI_ex)

lemma distance_le: "(seed, q) \<in> link_edges scan ^^ n \<Longrightarrow> link_distance scan seed q \<le> n"
  unfolding link_distance_def by (rule Least_le)

lemma distance_seed: "link_distance scan seed seed = 0"
  using distance_le [of seed seed 0 scan] by simp

lemma distance_zero:
  "q \<in> reachable scan seed \<Longrightarrow> link_distance scan seed q = 0 \<Longrightarrow> q = seed"
  using distance_relpow [of q scan seed] by simp

lemma distance_step:
  assumes "p \<in> reachable scan seed" and "q \<in> set (links_of scan p)"
  shows "link_distance scan seed q \<le> Suc (link_distance scan seed p)"
proof -
  have "(seed, p) \<in> link_edges scan ^^ link_distance scan seed p"
    using assms(1) by (rule distance_relpow)
  moreover have "(p, q) \<in> link_edges scan"
    using assms(2) by (simp add: link_edges_def)
  ultimately have "(seed, q) \<in> link_edges scan ^^ Suc (link_distance scan seed p)"
    by auto
  then show ?thesis by (rule distance_le)
qed

lemma distance_pred:
  assumes r: "q \<in> reachable scan seed" and d: "link_distance scan seed q = Suc m"
  shows "\<exists>y \<in> reachable scan seed. link_distance scan seed y = m \<and> q \<in> set (links_of scan y)"
proof -
  have "(seed, q) \<in> link_edges scan ^^ Suc m"
    using distance_relpow [OF r] d by simp
  then obtain y where y: "(seed, y) \<in> link_edges scan ^^ m" "(y, q) \<in> link_edges scan"
    by auto
  have yr: "y \<in> reachable scan seed"
    using y(1) reachable_relpow by blast
  have ql: "q \<in> set (links_of scan y)"
    using y(2) by (simp add: link_edges_def)
  have "link_distance scan seed y \<le> m"
    using y(1) by (rule distance_le)
  moreover have "Suc m \<le> Suc (link_distance scan seed y)"
    using distance_step [OF yr ql] d by simp
  ultimately have "link_distance scan seed y = m" by simp
  then show ?thesis using yr ql by blast
qed

text \<open>Every reachable path no farther from the seed than the head of the frontier is known.\<close>

lemma bfs_known:
  assumes inv: "bfs_inv scan seed st" and q: "pagesQueue st = u # ps"
  shows "x \<in> reachable scan seed \<Longrightarrow> link_distance scan seed x = n \<Longrightarrow>
         n \<le> link_distance scan seed u \<Longrightarrow>
         x \<in> set (visitedPages st) \<union> set (pagesQueue st)"
proof (induction n arbitrary: x)
  case 0
  then have "x = seed" by (simp add: distance_zero)
  then show ?case using inv by (simp add: bfs_inv_def crawl_inv_def)
next
  case (Suc m)
  obtain y where y: "y \<in> reachable scan seed" "link_distance scan seed y = m"
    "x \<in> set (links_of scan y)"
    using distance_pred [OF Suc.prems(1,2)] by blast
  have yk: "y \<in> set (visitedPages st) \<union> set (pagesQueue st)"
    using Suc.IH [OF y(1,2)] Suc.prems(3) by simp
  have srt: "sorted (map (link_distance scan seed) (u # ps))"
    using inv q by (simp add: bfs_inv_def sorted_append)
  have "\<forall>z \<in> set (pagesQueue st). link_distance scan seed u \<le> link_distance scan seed z"
    using srt q by auto
  then have "y \<notin> set (pagesQueue st)"
    using y(2) Suc.prems(3) by auto
  then have "y \<in> set (visitedPages st)" using yk by simp
  then show ?case
    using inv y(3) by (auto simp: bfs_inv_def crawl_inv_def)
qed

lemma bfs_inv_init: "bfs_inv scan seed (crawl_init seed)"
  using crawl_inv_init [of scan seed] by (simp add: bfs_inv_def crawl_init_def)

lemma bfs_inv_step:
  assumes inv: "bfs_inv scan seed st" and c: "crawl_continues st"
  shows "bfs_inv scan seed (crawl_step scan st)"
proof -
  let ?d = "link_distance scan seed"
  have ci: "crawl_inv scan seed st" using inv by (simp add: bfs_inv_def)
  obtain u ps where q: "pagesQueue st = u # ps"
    using c by (cases "pagesQueue st") (auto simp: crawl_continues_def)
  have dq: "distinct (pagesQueue st)" and disj: "set (pagesQueue st) \<inter> set (visitedPages st) = {}"
    using ci by (auto simp: crawl_inv_def)
  obtain new where s: "visitedPages (crawl_step scan st) = visitedPages st @ [u]"
      "pagesQueue (crawl_step scan st) = ps @ new"
      "set new \<subseteq> set (links_of scan u) - set (visitedPages st) - set (u # ps)"
    using crawl_step_shape [OF c dq disj, of scan] q by auto
  have ur: "u \<in> reachable scan seed"
    using ci q by (auto simp: crawl_inv_def)
  have srt: "sorted (map ?d (visitedPages st @ u # ps))"
    using inv q by (simp add: bfs_inv_def)
  have near: "\<forall>z \<in> set (u # ps). ?d z \<le> Suc (?d u)"
    using inv q by (simp add: bfs_inv_def)
  have vle: "\<forall>v \<in> set (visitedPages st). ?d v \<le> ?d u"
    using srt by (auto simp: sorted_append)
  have ple: "\<forall>z \<in> set ps. ?d u \<le> ?d z"
    using srt by (auto simp: sorted_append)
  have newd: "?d w = Suc (?d u)" if w: "w \<in> set new" for w
  proof -
    have wl: "w \<in> set (links_of scan u)" and wn: "w \<notin> set (visitedPages st) \<union> set (pagesQueue st)"
      using w s(3) q by auto
    have wr: "w \<in> reachable scan seed"
      using ur wl by (rule reachable_step)
    have le: "?d w \<le> Suc (?d u)"
      using ur wl by (rule distance_step)
    have "\<not> ?d w \<le> ?d u"
      using bfs_known [OF inv q wr refl] wn by blast
    then show ?thesis using le by simp
  qed
  have "sorted (map ?d new)"
    using newd by (simp add: sorted_wrt_iff_nth_less sorted_map)
  moreover have "\<forall>a \<in> set (visitedPages st @ u # ps). \<forall>b \<in> set new. ?d a \<le> ?d b"
    using newd vle near by fastforce
  ultimately have srt': "sorted (map ?d ((visitedPages st @ u # ps) @ new))"
    using srt unfolding map_append sorted_append by auto
  have hdle: "?d u \<le> ?d (hd (ps @ new))" if "ps @ new \<noteq> []"
  proof (cases ps)
    case Nil
    then have "hd (ps @ new) \<in> set new" using that by simp
    then show ?thesis using newd by simp
  next
    case (Cons a as)
    then show ?thesis using ple by simp
  qed
  have near': "\<forall>z \<in> set (ps @ new). ?d z \<le> Suc (?d (hd (ps @ new)))"
  proof
    fix z assume z: "z \<in> set (ps @ new)"
    then have ne: "ps @ new \<noteq> []" by auto
    have "?d z \<le> Suc (?d u)"
      using z near newd by auto
    then show "?d z \<le> Suc (?d (hd (ps @ new)))"
      using hdle [OF ne] by simp
  qed
  have "crawl_inv scan seed (crawl_step scan st)"
    using ci c by (rule crawl_inv_step)
  then show ?thesis
    unfolding bfs_inv_def s using srt' near' by simp
qed

lemma crawl_loop_bfs_inv:
  "bfs_inv scan seed st \<Longrightarrow> bfs_inv scan seed (crawl_loop scan st)"
proof (induction scan st rule: crawl_loop.induct)
  case (1 scan st)
  show ?case
  proof (cases "crawl_continues st")
    case True
    then show ?thesis
      using 1 bfs_inv_step [of scan seed st] by (subst crawl_loop.simps) simp
  next
    case False
    then show ?thesis
      using 1 by (subst crawl_loop.simps) simp
  qed
qed

text \<open>
  Claim C9. The frontier is processed in insertion order: from any state of the loop (a
  frontier without repetition, disjoint from the visited set), the paths now in the frontier
  are visited next, in the order in which they sit there, up to the page cap, before any
  path inserted later; \<open>set_add\<close> appends, so that order is the order of insertion. The
  visit order of a whole crawl is breadth-first: distances from the seed never decrease
  along the visited list. The crawl is a function of the fetch outcomes and the seed, so two
  runs on the same outcomes return the same lists.
\<close>

theorem crawl_frontier_fifo_bfs:
  "(distinct (pagesQueue st) \<and> set (pagesQueue st) \<inter> set (visitedPages st) = {} \<longrightarrow>
      prefix (visitedPages st @ take (maxPages - length (visitedPages st)) (pagesQueue st))
             (visitedPages (crawl_loop scan st))) \<and>
   sorted (map (link_distance scan seed) (visitedPages (crawl_loop scan (crawl_init seed))))"
proof -
  have "bfs_inv scan seed (crawl_loop scan (crawl_init seed))"
    using bfs_inv_init by (rule crawl_loop_bfs_inv)
  then have "sorted (map (link_distance scan seed) (visitedPages (crawl_loop scan (crawl_init seed))))"
    by (simp add: bfs_inv_def sorted_append)
  then show ?thesis
    using crawl_loop_fifo [of st scan] by simp
qed


theorem crawl_frontier_fifo_bfs_witness:
  "visitedPages (crawl_loop sample_scan
      \<lparr>pagesQueue = [''/a'', ''/b'', ''/c''], visitedPages = [''/''], foundPages = [],
       requested = [''/'']\<rparr>) = [''/'', ''/a'', ''/b'', ''/c''] \<and>
   prefix ([''/''] @ take (maxPages - 1) [''/a'', ''/b'', ''/c''])
     (visitedPages (crawl_loop sample_scan
        \<lparr>pagesQueue = [''/a'', ''/b'', ''/c''], visitedPages = [''/''], foundPages = [],
         requested = [''/'']\<rparr>)) \<and>
   sorted (map (link_distance sample_scan ''/'') [''/'', ''/a'', ''/b'', ''/c''])"
proof -
  have run: "visitedPages (crawl_loop sample_scan
      \<lparr>pagesQueue = [''/a'', ''/b'', ''/c''], visitedPages = [''/''], foundPages = [],
       requested = [''/'']\<rparr>) = [''/'', ''/a'', ''/b'', ''/c'']"
    by code_simp
  show ?thesis
    using crawl_frontier_fifo_bfs [of "\<lparr>pagesQueue = [''/a'', ''/b'', ''/c''],
        visitedPages = [''/''], foundPages = [], requested = [''/'']\<rparr>" sample_scan "''/''"]
    by (simp add: run sample_crawl)
qed

section \<open>Properties of the text substitution\<close>

text \<open>
  The substitution by \<open>walkAndReplace\<close> changes the data of text nodes only: the document
  with the text erased, that is every element, attribute name and attribute value, and every
  comment, is the same before and after.
\<close>

lemma walkAndReplace_skeleton: "skeleton (walkAndReplace tr n) = skeleton n"
  by (induction n) (simp_all cong: map_cong)

lemma update_at_skeleton:
  "(\<And>n. skeleton (f n) = skeleton n) \<Longrightarrow> map skeleton (update_at f pos ns) = map skeleton ns"
proof (induction f pos ns rule: update_at.induct)
  case (1 f ns)
  then show ?case by simp
next
  case (2 f i ns)
  then show ?case by (simp add: map_update list_update_same_conv)
next
  case (3 f i j p ns)
  show ?case
  proof (cases "i < length ns")
    case False
    then show ?thesis by simp
  next
    case True
    show ?thesis
    proof (cases "ns ! i")
      case (Element n as cs)
      have "map skeleton (update_at f (j # p) cs) = map skeleton cs"
        using 3 True Element by simp
      then show ?thesis
        using True Element by (simp add: map_update list_update_same_conv)
    qed (use True in simp_all)
  qed
qed

lemma replace_translation_skeleton:
  "map skeleton (replace_translation tr doc) = map skeleton doc"
proof -
  have "map skeleton (foldl (\<lambda>d pos. update_at (walkAndReplace tr) pos d) d0 ps) = map skeleton d0"
    for ps d0
    by (induction ps arbitrary: d0) (simp_all add: update_at_skeleton walkAndReplace_skeleton)
  then show ?thesis by (simp add: replace_translation_def)
qed

lemma replace_translations_skeleton:
  "map skeleton (replace_translations trs doc) = map skeleton doc"
  unfolding replace_translations_def
  by (induction trs arbitrary: doc) (simp_all add: replace_translation_skeleton)


lemma get_substitution_plain:
  "CHR ''$'' \<notin> set template \<Longrightarrow> get_substitution m b a template = template"
  by (induction m b a template rule: get_substitution.induct) auto

lemma split_at_first_Some:
  "split_at_first pat s = Some (b, a) \<Longrightarrow> s = b @ pat @ a"
proof (induction s arbitrary: b)
  case Nil
  then show ?case by (simp split: if_splits)
next
  case (Cons c cs)
  show ?case
  proof (cases "prefix pat (c # cs)")
    case True
    then obtain zs where zs: "c # cs = pat @ zs" by (auto simp: prefix_def)
    have "b = []" "a = drop (length pat) (c # cs)"
      using Cons.prems True by simp_all
    then show ?thesis using zs by simp
  next
    case False
    then obtain b' where "split_at_first pat cs = Some (b', a)" "b = c # b'"
      using Cons.prems by (auto split: option.splits)
    then show ?thesis using Cons.IH by simp
  qed
qed

lemma js_replace_same: "CHR ''$'' \<notin> set pat \<Longrightarrow> js_replace s pat pat = s"
  by (auto simp: js_replace_def get_substitution_plain split: option.splits
      dest: split_at_first_Some)

lemma walkAndReplace_untranslated:
  "translated_text tr = None \<Longrightarrow> CHR ''$'' \<notin> set (original_text tr) \<Longrightarrow>
   walkAndReplace tr n = n"
  by (induction n) (simp_all add: js_or_def js_replace_same map_idI)

lemma update_at_id: "(\<And>n. f n = n) \<Longrightarrow> update_at f pos ns = ns"
  by (induction f pos ns rule: update_at.induct)
     (auto split: node.splits simp: list_update_same_conv)

lemma replace_translation_untranslated:
  assumes "translated_text tr = None" and "CHR ''$'' \<notin> set (original_text tr)"
  shows "replace_translation tr doc = doc"
proof -
  have "foldl (\<lambda>d pos. update_at (walkAndReplace tr) pos d) d0 ps = d0" for ps d0
    by (induction ps arbitrary: d0)
       (simp_all add: update_at_id walkAndReplace_untranslated [OF assms])
  then show ?thesis by (simp add: replace_translation_def)
qed

text \<open>
  The scenario of the specification: in \<open><p>Hello world</p>\<close> the record (Hello, Hola, p)
  replaces the matched part of the text node and keeps the rest.
\<close>

lemma rewriter_scenario:
  "replace_translations [hello_row] [Element ''p'' [] [Text ''Hello world'']]
     = [Element ''p'' [] [Text ''Hola world'']]"
  unfolding hello_row_def by code_simp

text \<open>
  Claim C6. The scenario holds (\<open>rewriter_scenario\<close>), and a record without a translation
  leaves every text node unchanged when its original text has no dollar sign
  (\<open>replace_translation_untranslated\<close>). With dollar signs it does not: the replacement
  string of \<open>replace\<close> is the original text itself, in which \<open>$$\<close> stands for one dollar
  sign, so the untranslated fragment \<open>Save $$$\<close> turns the text \<open>Save $$$ today\<close> into
  \<open>Save $$ today\<close>.
\<close>

theorem untranslated_dollars_changed:
  "replace_translations [dollars_row] [Element ''p'' [] [Text ''Save $$$ today'']]
     = [Element ''p'' [] [Text ''Save $$ today'']] \<and>
   translated_text dollars_row = None"
  unfolding dollars_row_def by code_simp

text \<open>
  The walk does not tell the text node of a script or style element from any other: a script
  inside a selected paragraph has its body rewritten.
\<close>

lemma script_body_replaced:
  "replace_translations [hello_row] script_page =
     [Element ''p'' [(''title'', ''Hello'')]
        [Text ''Hola'', Element ''script'' [] [Text ''greet(1, Hola)'']]] \<and>
   concat (map script_bodies (replace_translations [hello_row] script_page))
     \<noteq> concat (map script_bodies script_page)"
  unfolding hello_row_def script_page_def by code_simp

text \<open>
  The translation pass of GET /view/:domain/* replaces the first occurrence of the text in
  the serialised children, which may lie in an attribute value.
\<close>

lemma html_replace_changes_attribute:
  "inner_html titled_link = ''<a title='' @ [CHR 0x22] @ ''Hello'' @ [CHR 0x22] @ '' href=''
      @ [CHR 0x22] @ ''/x'' @ [CHR 0x22] @ ''>Hello</a>'' \<and>
   translated_html hello_db ''example.com'' ''es'' titled_link =
     Some (''<a title='' @ [CHR 0x22] @ ''Hola'' @ [CHR 0x22] @ '' href=''
      @ [CHR 0x22] @ ''/x'' @ [CHR 0x22] @ ''>Hello</a>'')"
  unfolding hello_db_def hello_row_def titled_link_def by code_simp

section \<open>Properties of the asset passes\<close>

lemma attr_set_attr: "attr (set_attr as k v) k' = (if k' = k then Some v else attr as k')"
  by (induction as) (auto simp: attr_def)

lemma set_attr_same: "attr as k = Some v \<Longrightarrow> set_attr as k v = as"
  by (induction as) (auto simp: attr_def split: if_splits)

lemma fix_asset_attr_settled:
  "asset_settled parse baseUrl (attr as k) \<Longrightarrow> fix_asset_attr parse baseUrl as k = as"
  by (auto simp: asset_settled_def fix_asset_attr_def set_attr_same split: option.splits)

lemma fix_asset_attr_settles:
  assumes "href_stable parse baseUrl"
  shows "asset_settled parse baseUrl (attr (fix_asset_attr parse baseUrl as k) k)"
proof (cases "attr as k")
  case None
  then show ?thesis by (simp add: fix_asset_attr_def asset_settled_def)
next
  case (Some v)
  show ?thesis
  proof (cases "v \<noteq> [] \<and> \<not> startsWith v ''http'' \<and> \<not> startsWith v ''data:''")
    case False
    then show ?thesis using Some by (auto simp: fix_asset_attr_def asset_settled_def)
  next
    case True
    show ?thesis
    proof (cases "parse v (Some baseUrl)")
      case None
      then show ?thesis using Some True by (simp add: fix_asset_attr_def asset_settled_def)
    next
      case (Some u)
      obtain u' where "parse (href u) (Some baseUrl) = Some u'" "href u' = href u"
        using assms Some unfolding href_stable_def by blast
      then show ?thesis
        using \<open>attr as k = Some v\<close> True Some
        by (simp add: fix_asset_attr_def asset_settled_def attr_set_attr)
    qed
  qed
qed

lemma fix_asset_attr_other:
  "k' \<noteq> k \<Longrightarrow> attr (fix_asset_attr parse baseUrl as k) k' = attr as k'"
  by (auto simp: fix_asset_attr_def attr_set_attr split: option.splits)

lemma fix_assets_serve_idem:
  assumes st: "href_stable parse baseUrl"
  shows "fix_assets_serve parse baseUrl n (fix_assets_serve parse baseUrl n as)
           = fix_assets_serve parse baseUrl n as"
proof (cases "n \<in> set [''img'', ''script'', ''link'', ''source'', ''video'', ''audio'']")
  case False
  then show ?thesis by (simp add: fix_assets_serve_def)
next
  case True
  define a1 where "a1 = fix_asset_attr parse baseUrl as ''src''"
  define a2 where "a2 = fix_asset_attr parse baseUrl a1 ''href''"
  define a3 where "a3 = fix_asset_attr parse baseUrl a2 ''poster''"
  have f: "fix_assets_serve parse baseUrl n as = a3"
    using True by (simp add: fix_assets_serve_def a1_def a2_def a3_def)
  have s1: "asset_settled parse baseUrl (attr a3 ''src'')"
    using fix_asset_attr_settles [OF st, of as "''src''"]
    by (simp add: a1_def a2_def a3_def fix_asset_attr_other)
  have s2: "asset_settled parse baseUrl (attr a3 ''href'')"
    using fix_asset_attr_settles [OF st, of a1 "''href''"]
    by (simp add: a2_def a3_def fix_asset_attr_other)
  have s3: "asset_settled parse baseUrl (attr a3 ''poster'')"
    using fix_asset_attr_settles [OF st, of a2 "''poster''"] by (simp add: a3_def)
  have "fix_assets_serve parse baseUrl n a3 = a3"
    using True s1 s2 s3 by (simp add: fix_assets_serve_def fix_asset_attr_settled)
  then show ?thesis by (simp add: f)
qed

lemma map_elements_idem:
  "(\<And>n as. f n (f n as) = f n as) \<Longrightarrow> map_elements f (map_elements f t) = map_elements f t"
  by (induction t) simp_all

lemma serve_assets_idem:
  "href_stable parse baseUrl \<Longrightarrow>
   serve_assets parse baseUrl (serve_assets parse baseUrl doc) = serve_assets parse baseUrl doc"
  by (simp add: serve_assets_def map_elements_idem fix_assets_serve_idem)

lemma fix_assets_root_idem:
  assumes st: "href_stable parse (''https://'' @ domain)"
    and r: "fix_assets_root parse domain n as = Some as'"
  shows "fix_assets_root parse domain n as' = Some as'"
proof (cases "n \<in> set [''img'', ''script'', ''link'']")
  case False
  then show ?thesis using r by (simp add: fix_assets_root_def)
next
  case tag: True
  let ?src = "if truthy (attr as ''src'') then attr as ''src'' else attr as ''href''"
  show ?thesis
  proof (cases ?src)
    case None
    then have "as' = as" using r tag by (simp add: fix_assets_root_def)
    then show ?thesis using r by simp
  next
    case (Some v)
    show ?thesis
    proof (cases "v \<noteq> [] \<and> \<not> startsWith v ''http''")
      case False
      then have "as' = as" using r tag Some by (auto simp: fix_assets_root_def)
      then show ?thesis using r by simp
    next
      case True
      then obtain u where u: "parse v (Some (''https://'' @ domain)) = Some u"
        using r tag Some by (cases "parse v (Some (''https://'' @ domain))")
          (auto simp: fix_assets_root_def)
      obtain u' where u': "parse (href u) (Some (''https://'' @ domain)) = Some u'"
        "href u' = href u" and ne: "href u \<noteq> []"
        using st u unfolding href_stable_def by blast
      show ?thesis
      proof (cases "truthy (attr as ''src'')")
        case t: True
        then have as': "as' = set_attr as ''src'' (href u)"
          using r tag Some True u by (simp add: fix_assets_root_def)
        show ?thesis
          unfolding as' using tag ne u'
          by (simp add: fix_assets_root_def attr_set_attr truthy_def set_attr_same)
      next
        case t: False
        then have as': "as' = set_attr as ''href'' (href u)"
          using r tag Some True u by (simp add: fix_assets_root_def)
        show ?thesis
          unfolding as' using tag ne u' t
          by (simp add: fix_assets_root_def attr_set_attr truthy_def set_attr_same)
      qed
    qed
  qed
qed

lemma those_map_Some:
  "those (map g xs) = Some ys \<Longrightarrow> list_all2 (\<lambda>x y. g x = Some y) xs ys"
  by (induction xs arbitrary: ys) (auto split: option.splits)

lemma those_map_fixed:
  "list_all (\<lambda>y. g y = Some y) ys \<Longrightarrow> those (map g ys) = Some ys"
  by (induction ys) auto

lemma try_map_elements_idem:
  assumes f: "\<And>n as as'. f n as = Some as' \<Longrightarrow> f n as' = Some as'"
  shows "try_map_elements f t = Some t' \<Longrightarrow> try_map_elements f t' = Some t'"
proof (induction t arbitrary: t')
  case (Text d)
  then show ?case by auto
next
  case (Comment c)
  then show ?case by auto
next
  case (Element n as cs)
  from Element.prems obtain as' cs' where p: "f n as = Some as'"
    "those (map (try_map_elements f) cs) = Some cs'" "t' = Element n as' cs'"
    by (auto split: option.splits)
  have "list_all2 (\<lambda>c c'. try_map_elements f c = Some c') cs cs'"
    using p(2) by (rule those_map_Some)
  then have "list_all (\<lambda>c'. try_map_elements f c' = Some c') cs'"
    using Element.IH
    by (induction rule: list_all2_induct) auto
  then have "those (map (try_map_elements f) cs') = Some cs'"
    by (rule those_map_fixed)
  then show ?case
    using p f [OF p(1)] by simp
qed

lemma root_assets_idem:
  assumes st: "href_stable parse (''https://'' @ domain)"
    and r: "root_assets parse domain doc = Some doc'"
  shows "root_assets parse domain doc' = Some doc'"
proof -
  let ?g = "try_map_elements (fix_assets_root parse domain)"
  have "list_all2 (\<lambda>c c'. ?g c = Some c') doc doc'"
    using r unfolding root_assets_def by (rule those_map_Some)
  then have "list_all (\<lambda>c'. ?g c' = Some c') doc'"
    using try_map_elements_idem [of "fix_assets_root parse domain", OF fix_assets_root_idem [OF st]]
    by (induction rule: list_all2_induct) auto
  then show ?thesis
    unfolding root_assets_def by (rule those_map_fixed)
qed

lemma fix_assets_serve_keeps:
  assumes "attr as k = Some v" and "startsWith v ''http'' \<or> startsWith v ''data:''"
  shows "attr (fix_assets_serve parse baseUrl n as) k = Some v"
proof -
  have g: "attr (fix_asset_attr parse baseUrl bs j) k = Some v" if "attr bs k = Some v" for bs j
    using that assms(2)
    by (cases "j = k") (auto simp: fix_asset_attr_def attr_set_attr split: option.splits)
  show ?thesis
    using assms(1) by (simp add: fix_assets_serve_def g)
qed

lemma fix_assets_root_keeps:
  assumes "fix_assets_root parse domain n as = Some as'" and "attr as k = Some v"
    and "startsWith v ''http''"
  shows "attr as' k = Some v"
  using assms
  by (auto simp: fix_assets_root_def attr_set_attr truthy_def
      split: if_splits option.splits)

text \<open>
  Provided that the \<open>href\<close> of a parsed URL is not empty and parses to itself, both asset
  passes are idempotent: a second pass over a rewritten document changes nothing. A value
  that starts with \<open>http\<close> is kept by both passes, and a value that starts with \<open>data:\<close> is
  kept by the pass of \<open>serveTranslatedWebsite\<close>.
\<close>

lemma asset_rewrite_idempotent:
  assumes "href_stable parse (''https://'' @ domain)"
  shows "serve_assets parse (''https://'' @ domain) (serve_assets parse (''https://'' @ domain) doc)
           = serve_assets parse (''https://'' @ domain) doc \<and>
         (root_assets parse domain doc = Some doc' \<longrightarrow> root_assets parse domain doc' = Some doc') \<and>
         (attr as k = Some v \<and> (startsWith v ''http'' \<or> startsWith v ''data:'') \<longrightarrow>
            attr (fix_assets_serve parse (''https://'' @ domain) n as) k = Some v) \<and>
         (fix_assets_root parse domain n as = Some as' \<and> attr as k = Some v \<and>
            startsWith v ''http'' \<longrightarrow> attr as' k = Some v)"
  using assms serve_assets_idem root_assets_idem fix_assets_serve_keeps fix_assets_root_keeps
  by blast

lemma host_name_no_slash:
  assumes "host_name h"
  shows "CHR ''/'' \<notin> set h"
proof
  assume "CHR ''/'' \<in> set h"
  then have "CHR ''/'' \<in> set ''abcdefghijklmnopqrstuvwxyz.''"
    using assms unfolding host_name_def list_all_iff by blast
  then show False by simp
qed

lemma https_parts_again:
  assumes w: "https_url w"
  shows "https_url (href (https_parts w)) \<and> https_parts (href (https_parts w)) = https_parts w"
proof -
  define h where "h = url_host w"
  define p where "p = (if url_path w = [] then ''/'' else url_path w)"
  have hn: "host_name h"
    using w unfolding https_url_def h_def by simp
  have "site_path ''/''" by code_simp
  then have sp: "site_path p"
    using w unfolding https_url_def p_def by auto
  then obtain r where r: "p = CHR ''/'' # r"
    unfolding site_path_def startsWith_def prefix_def by auto
  have hr: "href (https_parts w) = ''https://'' @ h @ p"
    unfolding https_parts_def h_def p_def by (simp add: Let_def)
  have d8: "drop 8 (''https://'' @ h @ p) = h @ p" by simp
  have nh: "\<And>x. x \<in> set h \<Longrightarrow> x \<noteq> CHR ''/''"
    using host_name_no_slash [OF hn] by blast
  have uh: "url_host (''https://'' @ h @ p) = h"
    unfolding url_host_def d8 using nh by (simp add: takeWhile_append2 r)
  have up: "url_path (''https://'' @ h @ p) = p"
    unfolding url_path_def d8 using nh by (simp add: dropWhile_append2 r)
  have pne: "p \<noteq> []" using r by simp
  have a: "https_url (''https://'' @ h @ p)"
    unfolding https_url_def uh up using hn sp by (simp add: startsWith_def)
  have b: "https_parts (''https://'' @ h @ p) = https_parts w"
    unfolding https_parts_def uh up using pne
    by (simp add: Let_def h_def [symmetric] p_def [symmetric])
  show ?thesis using a b hr by simp
qed

lemma https_parts_href: "href (https_parts w) \<noteq> []"
  by (simp add: https_parts_def Let_def)

lemma sample_parse_stable: "href_stable sample_parse ''https://example.com''"
  unfolding href_stable_def
proof (intro allI impI)
  fix v u
  assume p: "sample_parse v (Some ''https://example.com'') = Some u"
  let ?site = "''https://example.com''"
  let ?clean = "filter (\<lambda>c. \<not> tab_or_newline c)"
  let ?goal = "href u \<noteq> [] \<and>
      (\<exists>u'. sample_parse (href u) (Some ?site) = Some u' \<and> href u' = href u)"
  have https_case: ?goal if "https_url w" "u = https_parts w" for w
  proof -
    have "sample_parse (href u) (Some ?site) = Some (https_parts (href u))"
      unfolding sample_parse_def using https_parts_again [OF that(1)] that(2) by simp
    then show ?thesis
      using https_parts_again [OF that(1)] that(2) https_parts_href [of w] by simp
  qed
  show ?goal
  proof (cases "https_url v")
    case True
    then have "u = https_parts v"
      using p unfolding sample_parse_def by simp
    then show ?thesis using https_case [OF True] by simp
  next
    case n1: False
    show ?thesis
    proof (cases "data_url (?clean v)")
      case True
      then have h: "href u = ?clean v"
        using p n1 unfolding sample_parse_def by auto
      have pre: "prefix ''data:'' (?clean v)"
        using True by (simp add: data_url_def startsWith_def)
      then obtain zs where zs: "?clean v = ''data:'' @ zs"
        by (auto simp: prefix_def)
      have ne: "?clean v \<noteq> []" using zs by simp
      have b: "\<not> https_url (?clean v)"
        unfolding zs https_url_def startsWith_def by simp
      have c: "?clean (?clean v) = ?clean v" by simp
      have "sample_parse (?clean v) (Some ?site) =
          Some \<lparr>protocol = ''data:'', hostname = [], pathname = drop 5 (?clean v),
                search = [], href = ?clean v\<rparr>"
        unfolding sample_parse_def using b c True by simp
      then show ?thesis using h ne by simp
    next
      case n2: False
      show ?thesis
      proof (cases "mailto_url v")
        case True
        then have h: "href u = v"
          using p n1 n2 unfolding sample_parse_def by auto
        have "v \<noteq> []" using True by (auto simp: mailto_url_def)
        then show ?thesis using p h by simp
      next
        case n3: False
        show ?thesis
        proof (cases "app_url v")
          case True
          then have h: "href u = v"
            using p n1 n2 n3 unfolding sample_parse_def by auto
          have "v \<noteq> []" using True by (auto simp: app_url_def startsWith_def)
          then show ?thesis using p h by simp
        next
          case n4: False
          show ?thesis
          proof (cases "startsWith v ''//'' \<and> https_url (''https:'' @ v)")
            case True
            then have "u = https_parts (''https:'' @ v)"
              using p n1 n2 n3 n4 unfolding sample_parse_def by simp
            then show ?thesis using https_case True by blast
          next
            case n5: False
            show ?thesis
            proof (cases "startsWith v [CHR ''/'', CHR 0x5C] \<and> https_url (''https://'' @ drop 2 v)")
              case True
              then have "u = https_parts (''https://'' @ drop 2 v)"
                using p n1 n2 n3 n4 n5 unfolding sample_parse_def by (auto split: if_splits)
              then show ?thesis using https_case True by blast
            next
              case n6: False
              then have "https_url (?site @ v) \<and> u = https_parts (?site @ v)"
                using p n1 n2 n3 n4 n5 n6 unfolding sample_parse_def by (auto split: if_splits)
              then show ?thesis using https_case by blast
            qed
          qed
        qed
      qed
    qed
  qed
qed

lemma sample_serve_assets:
  "serve_assets sample_parse ''https://example.com'' assets_page =
     [Element ''img'' [(''src'', ''https://example.com/logo.png''), (''alt'', ''http'')] [],
      Element ''link'' [(''rel'', ''stylesheet''), (''href'', ''https://example.com/site.css'')] []]"
  by code_simp

lemma sample_root_assets:
  "root_assets sample_parse ''example.com'' assets_page =
     Some [Element ''img'' [(''src'', ''https://example.com/logo.png''), (''alt'', ''http'')] [],
           Element ''link'' [(''rel'', ''stylesheet''), (''href'', ''https://example.com/site.css'')] []]"
  by code_simp

text \<open>The sample constructor meets the proviso, and the passes are idempotent on the sample page.\<close>

lemma asset_rewrite_idempotent_sample:
  "href_stable sample_parse (''https://'' @ ''example.com'') \<and>
   serve_assets sample_parse ''https://example.com''
     (serve_assets sample_parse ''https://example.com'' assets_page)
     = serve_assets sample_parse ''https://example.com'' assets_page \<and>
   root_assets sample_parse ''example.com''
     [Element ''img'' [(''src'', ''https://example.com/logo.png''), (''alt'', ''http'')] [],
      Element ''link'' [(''rel'', ''stylesheet''), (''href'', ''https://example.com/site.css'')] []]
     = root_assets sample_parse ''example.com'' assets_page"
proof -
  have st: "href_stable sample_parse (''https://'' @ ''example.com'')"
    using sample_parse_stable by simp
  show ?thesis
    using asset_rewrite_idempotent [OF st, of assets_page
        "[Element ''img'' [(''src'', ''https://example.com/logo.png''), (''alt'', ''http'')] [],
          Element ''link'' [(''rel'', ''stylesheet''), (''href'', ''https://example.com/site.css'')] []]"]
      st
    by (simp add: sample_root_assets)
qed

text \<open>
  Claim C7. Both asset passes are idempotent, and both keep a value that starts with
  \<open>http\<close> (\<open>asset_rewrite_idempotent\<close>). A \<open>data:\<close> URI is kept by the pass of
  \<open>serveTranslatedWebsite\<close> only: the pass of GET /view/:domain lacks the test for \<open>data:\<close>
  and the \<open>try\<close> and \<open>catch\<close> of its sibling. The \<open>data:\<close> URL that is broken over two lines
  does not start with \<open>http\<close>, goes through the URL constructor and comes back without the
  line break.
\<close>

theorem root_assets_rewrites_data_url:
  "root_assets sample_parse ''example.com'' wrapped_data_page =
     Some [Element ''img'' [(''src'', ''data:image/gif;base64,R0lGODlh'')] []] \<and>
   wrapped_data_page =
     [Element ''img'' [(''src'', ''data:image/gif;base64,R0lG'' @ [CHR 0x0A] @ ''ODlh'')] []] \<and>
   startsWith (''data:image/gif;base64,R0lG'' @ [CHR 0x0A] @ ''ODlh'') ''data:''"
  unfolding wrapped_data_page_def by code_simp

lemma serve_assets_keeps_data_url:
  "serve_assets sample_parse ''https://example.com'' wrapped_data_page = wrapped_data_page"
  unfolding wrapped_data_page_def by code_simp

section \<open>Properties of the view handlers\<close>

lemma view_unknown_domain:
  assumes "findWebsite db domain = None"
  shows "view_root parse db axios_get domain lang = (Failed 404 ''Website not found'', [])"
    and "view_root_part0 parse db axios_get domain lang = (Failed 404 ''Website not found'', [])"
    and "view_sub_part0 parse db axios_get domain rest lang = (Failed 404 ''Website not found'', [])"
    and "serveTranslatedWebsite parse db axios_get domain p lng
           = (Failed 404 ''Website not found'', [])"
    and "view_sub load_fragment db axios_get domain rest lang
           = (Failed 500 (''Error: Website not found: '' @ domain), [])"
  using assms
  by (simp_all add: view_root_def view_root_part0_def view_sub_part0_def
      serveTranslatedWebsite_def view_sub_def getWebsiteByDomain_def findWebsite_def Let_def)

text \<open>
  Claim C3. No handler fetches anything for a domain without a row (\<open>view_unknown_domain\<close>),
  and four of the five answer 404. The handler for sub-paths in src/server/index.js throws
  instead, and its \<open>catch\<close> answers 500 with the message of the error.
\<close>

theorem view_sub_unknown_domain:
  "findWebsite sample_db ''unknown.example'' = None \<and>
   view_sub load_fragment sample_db axios_get ''unknown.example'' ''about'' lang
     = (Failed 500 ''Error: Website not found: unknown.example'', []) \<and>
   view_sub_part0 parse sample_db axios_get ''unknown.example'' ''about'' lang
     = (Failed 404 ''Website not found'', [])"
  by (simp add: view_sub_def view_sub_part0_def getWebsiteByDomain_def findWebsite_def
      sample_db_def Let_def)

text \<open>
  Claim C2. The handler for sub-paths in src/server/index.js, given the page whose paragraph
  holds a link with the title \<open>Hello\<close> and the text \<open>Hello\<close>, and the translation of
  \<open>Hello\<close> to \<open>Hola\<close>, hands to \<open>$el.html\<close> a string in which the title is \<open>Hola\<close> and
  the text is still \<open>Hello\<close>: the attribute value is changed and the text node is not.
\<close>

theorem view_sub_changes_attribute:
  "view_sub load_fragment hello_db (\<lambda>target. Returns titled_link_page) ''example.com'' ''page''
       (Some ''es'') =
     (Html [Element ''html'' []
              [Element ''head'' [] [Element ''base'' [(''href'', ''https://example.com/'')] []],
               Element ''body'' []
                 [Element ''p'' []
                    (load_fragment (''<a title='' @ [CHR 0x22] @ ''Hola'' @ [CHR 0x22] @ '' href=''
                       @ [CHR 0x22] @ ''x'' @ [CHR 0x22] @ ''>Hello</a>''))]]],
      [''https://example.com/page''])"
  unfolding hello_db_def hello_row_def titled_link_page_def titled_link_def
  by code_simp
































end
